theory Spec2Isabelle
  imports Main "HOL-Library.Word"
begin

unbundle bit_operations_syntax

section \<open>Go values\<close>

text \<open>
  Fixed-width Go integers are words: \<open>+\<close>, \<open>-\<close> and the conversions between widths
  (\<open>ucast\<close>, \<open>word_of_nat\<close>, \<open>word_of_int\<close>) wrap as Go's do. A signed type is the word
  read with \<open>sint\<close> and compared with \<open><s\<close>. \<open>time.Duration\<close> is an \<open>int64\<close> count of
  nanoseconds. Go's \<open>int\<close> (slice lengths, byte offsets) is an unbounded \<open>nat\<close> or \<open>int\<close>: a
  length never leaves the range of \<open>int\<close>. A slice that can be \<open>nil\<close> and is told apart from
  the empty one is an \<open>option\<close>.
\<close>

type_synonym byte = "8 word"
type_synonym uint32 = "32 word"
type_synonym int32 = "32 word"
type_synonym uint64 = "64 word"
type_synonym int64 = "64 word"
type_synonym Duration = "64 word"

datatype error = ErrInvalid | ErrWrite | ErrTempFile | ErrSyntax | ErrRange | ErrBase | ErrBitSize

section \<open>Package strconv and strings (Go standard library)\<close>

text \<open>
  \<open>strings.Split\<close> with a one-byte separator: cut at the first separator, keep the piece
  before it, go on with what follows; the rest after the last separator is the last piece.
\<close>

function Split :: "string \<Rightarrow> char \<Rightarrow> string list" where
  "Split s sep =
     (if sep \<in> set s
      then takeWhile (\<lambda>c. c \<noteq> sep) s # Split (tl (dropWhile (\<lambda>c. c \<noteq> sep) s)) sep
      else [s])"
  by pat_completeness auto
termination
proof (relation "measure (\<lambda>(s, sep). length s)")
  show "wf (measure (\<lambda>(s, sep). length s))" by simp
next
  fix s :: string and sep :: char
  assume "sep \<in> set s"
  then have "dropWhile (\<lambda>c. c \<noteq> sep) s \<noteq> []" by (simp add: dropWhile_eq_Nil_conv)
  then have "length (tl (dropWhile (\<lambda>c. c \<noteq> sep) s)) < length (dropWhile (\<lambda>c. c \<noteq> sep) s)"
    by (cases "dropWhile (\<lambda>c. c \<noteq> sep) s") simp_all
  also have "\<dots> \<le> length s" by (rule length_dropWhile_le)
  finally show "((tl (dropWhile (\<lambda>c. c \<noteq> sep) s), sep), (s, sep)) \<in> measure (\<lambda>(s, sep). length s)"
    by simp
qed

declare Split.simps [simp del]

text \<open>
  \<open>strconv.FormatInt\<close> for a base 2..36 (outside it the library panics; this package
  passes 36 and, through \<open>%d\<close>, 10): the digits of the magnitude, most significant
  first, from the digit string, with a leading minus sign for a negative number. The
  magnitude is \<open>uint64(i)\<close>, negated in \<open>uint64\<close> when \<open>i\<close> is negative. \<open>formatBits\<close>
  is the library's general loop, which divides by the base; its loops for base 10 and
  for the powers of two produce the same digits.
\<close>

definition digits :: string where
  "digits = ''0123456789abcdefghijklmnopqrstuvwxyz''"

function formatBits :: "nat \<Rightarrow> nat \<Rightarrow> string \<Rightarrow> string" where
  "formatBits b u a =
     (if 2 \<le> b \<and> b \<le> u then formatBits b (u div b) (digits ! (u mod b) # a)
      else digits ! u # a)"
  by pat_completeness auto
termination
  by (relation "measure (\<lambda>(b, u, a). u)") auto

declare formatBits.simps [simp del]

definition FormatInt :: "int64 \<Rightarrow> nat \<Rightarrow> string" where
  "FormatInt i base =
     (if i <s 0 then CHR ''-'' # formatBits base (unat (- i)) []
      else formatBits base (unat i) [])"

text \<open>
  \<open>strconv.ParseUint\<close> for an explicit base 2..36 (the only bases this package passes;
  base 0, which reads a prefix and underscores, is reported as \<open>ErrBase\<close> here). The
  accumulator is a \<open>uint64\<close>: the multiplication and the addition wrap, and the
  function checks for it as the library does.
\<close>

definition lower :: "nat \<Rightarrow> nat" where
  "lower c = c OR 32"

definition digitVal :: "char \<Rightarrow> nat option" where
  "digitVal c =
     (let n = of_char c in
      if 48 \<le> n \<and> n \<le> 57 then Some (n - 48)
      else if 97 \<le> lower n \<and> lower n \<le> 122 then Some (lower n - 97 + 10)
      else None)"

fun ParseUint_loop :: "nat \<Rightarrow> nat \<Rightarrow> nat \<Rightarrow> nat \<Rightarrow> string \<Rightarrow> nat \<times> error option" where
  "ParseUint_loop base cutoff maxVal n [] = (n, None)"
| "ParseUint_loop base cutoff maxVal n (c # cs) =
     (case digitVal c of
        None \<Rightarrow> (0, Some ErrSyntax)
      | Some d \<Rightarrow>
          if base \<le> d then (0, Some ErrSyntax)
          else if cutoff \<le> n then (maxVal, Some ErrRange)
          else
            let n0 = (n * base) mod 2 ^ 64;
                n1 = (n0 + d) mod 2 ^ 64
            in if n1 < n0 \<or> maxVal < n1 then (maxVal, Some ErrRange)
               else ParseUint_loop base cutoff maxVal n1 cs)"

definition ParseUint :: "nat \<Rightarrow> string \<Rightarrow> nat \<Rightarrow> nat \<Rightarrow> nat \<times> error option" where
  "ParseUint IntSize s base bitSize =
     (if s = [] then (0, Some ErrSyntax)
      else if \<not> (2 \<le> base \<and> base \<le> 36) then (0, Some ErrBase)
      else if 64 < bitSize then (0, Some ErrBitSize)
      else
        let bs = (if bitSize = 0 then IntSize else bitSize);
            cutoff = (2 ^ 64 - 1) div base + 1;
            maxVal = 2 ^ bs - 1
        in ParseUint_loop base cutoff maxVal 0 s)"

text \<open>
  \<open>strconv.ParseInt\<close>: an optional sign, then \<open>ParseUint\<close>, then the range check for
  the signed type of \<open>bitSize\<close> bits (\<open>IntSize\<close>, the width of \<open>int\<close> on the platform,
  when \<open>bitSize\<close> is 0). With an error it returns 0 (syntax) or the nearest bound (range).
\<close>

definition ParseInt :: "nat \<Rightarrow> string \<Rightarrow> nat \<Rightarrow> nat \<Rightarrow> int64 \<times> error option" where
  "ParseInt IntSize s0 base bitSize =
     (if s0 = [] then (0, Some ErrSyntax)
      else
        let neg = (hd s0 = CHR ''-'');
            s = (if hd s0 = CHR ''+'' \<or> hd s0 = CHR ''-'' then tl s0 else s0)
        in case ParseUint IntSize s base bitSize of
             (un, err) \<Rightarrow>
               if err \<noteq> None \<and> err \<noteq> Some ErrRange then (0, err)
               else
                 let bs = (if bitSize = 0 then IntSize else bitSize);
                     cutoff = 2 ^ (bs - 1)
                 in if \<not> neg \<and> cutoff \<le> un then (word_of_nat (cutoff - 1), Some ErrRange)
                    else if neg \<and> cutoff < un then (- word_of_nat cutoff, Some ErrRange)
                    else (if neg then - word_of_nat un else word_of_nat un, None))"

text \<open>The values of the signed type of \<open>bs\<close> bits, among the \<open>int64\<close>.\<close>

definition fits_int :: "nat \<Rightarrow> int64 \<Rightarrow> bool" where
  "fits_int bs i = (- (2 ^ (bs - 1)) \<le> sint i \<and> sint i < 2 ^ (bs - 1))"

section \<open>Package segment\<close>

text \<open>
  \<open>fmp4.RawFragment\<close>, with the fields this package reads. \<open>Bytes\<close> is \<open>None\<close> for
  the \<open>nil\<close> slice that \<open>Finalize\<close> leaves; \<open>Length\<close> is a Go \<open>int\<close>.
\<close>

record RawFragment =
  Bytes :: "byte list option"
  Length :: int
  Independent :: bool
  Duration :: Duration

text \<open>
  The backing store is the file behind the handle \<open>f\<close>: its contents, or \<open>None\<close> once
  \<open>Release\<close> has set the handle to \<open>nil\<close>. A write either appends all the bytes, or
  appends a prefix of them and returns an error; on a \<open>nil\<close> handle it returns
  \<open>ErrInvalid\<close>. Which of the two an actual write does is the environment's choice, given
  as a \<open>write_outcome\<close>.
\<close>

datatype write_outcome = WriteOk | WriteFails nat

fun file_Write :: "write_outcome \<Rightarrow> byte list option \<Rightarrow> byte list \<Rightarrow> byte list option \<times> error option" where
  "file_Write oc None b = (None, Some ErrInvalid)"
| "file_Write WriteOk (Some d) b = (Some (d @ b), None)"
| "file_Write (WriteFails k) (Some d) b = (Some (d @ take k b), Some ErrWrite)"

record Segment =
  start :: Duration
  id_seg :: int64
  dcn :: bool
  baseName :: string
  programTime :: string
  parts :: "RawFragment list"
  f_seg :: "byte list option"
  final :: bool
  size_seg :: int64
  dur :: Duration

text \<open>
  \<open>New\<close>. The program time arrives already rendered (\<open>None\<close> for the zero time); whether
  the temporary file could be created is the environment's choice.
\<close>

definition New :: "bool \<Rightarrow> int64 \<Rightarrow> Duration \<Rightarrow> bool \<Rightarrow> string option \<Rightarrow> error + Segment" where
  "New tempFileOk id0 start0 dcn0 programTime0 =
     (if tempFileOk
      then Inr \<lparr> start = start0, id_seg = id0, dcn = dcn0, baseName = FormatInt id0 36,
                 programTime = (case programTime0 of None \<Rightarrow> [] | Some t \<Rightarrow> t),
                 parts = [], f_seg = Some [], final = False, size_seg = 0, dur = 0 \<rparr>
      else Inl ErrTempFile)"

text \<open>
  The names \<open>Format\<close> prints: the whole segment's, and the part's with its index in base
  10 (\<open>%d\<close> of an \<open>int\<close> prints what \<open>FormatInt\<close> does in base 10).
\<close>

definition segmentName :: "string \<Rightarrow> string" where
  "segmentName base = base @ ''.m4s''"

definition partName :: "string \<Rightarrow> int64 \<Rightarrow> string" where
  "partName base i = base @ ''.'' @ FormatInt i 10 @ ''.m4s''"

definition ParseName :: "nat \<Rightarrow> string \<Rightarrow> int64 \<times> int64 \<times> bool" where
  "ParseName IntSize name =
     (let ps = Split name CHR ''.'' in
      if length ps < 2 \<or> 3 < length ps \<or> ps ! (length ps - 1) \<noteq> ''m4s'' then (0, 0, False)
      else
        case ParseInt IntSize (ps ! 0) 36 64 of
          (id0, Some e) \<Rightarrow> (id0, 0, False)
        | (id0, None) \<Rightarrow>
            if length ps = 3
            then (case ParseInt IntSize (ps ! 1) 10 0 of
                    (part, Some e) \<Rightarrow> (id0, part, False)
                  | (part, None) \<Rightarrow> (id0, part, True))
            else (id0, - 1, True))"

definition bytes_of :: "RawFragment \<Rightarrow> byte list" where
  "bytes_of frag = (case Bytes frag of None \<Rightarrow> [] | Some b \<Rightarrow> b)"

text \<open>
  \<open>Append\<close>, statement by statement. While a call runs there is the segment, whether
  the call holds \<open>s.mu\<close>, and the local \<open>err\<close>. The mutex guards \<open>parts\<close> and \<open>size\<close>
  against the goroutines that read the segment while it is live: they see it in the
  states in which the call does not hold the mutex. A call is entered with the mutex
  free, the methods of a segment not being safe for concurrent use.
\<close>

datatype stmt = Lock_mu | Append_parts | Add_size | Unlock_mu | Write_f

record frame =
  seg :: Segment
  mu_held :: bool
  err_var :: "error option"

fun exec :: "write_outcome \<Rightarrow> RawFragment \<Rightarrow> stmt \<Rightarrow> frame \<Rightarrow> frame" where
  "exec oc frag Lock_mu fr = fr\<lparr> mu_held := True \<rparr>"
| "exec oc frag Append_parts fr = fr\<lparr> seg := (seg fr)\<lparr> parts := parts (seg fr) @ [frag] \<rparr> \<rparr>"
| "exec oc frag Add_size fr =
     fr\<lparr> seg := (seg fr)\<lparr> size_seg := size_seg (seg fr) + word_of_int (Length frag) \<rparr> \<rparr>"
| "exec oc frag Unlock_mu fr = fr\<lparr> mu_held := False \<rparr>"
| "exec oc frag Write_f fr =
     (case file_Write oc (f_seg (seg fr)) (bytes_of frag) of
        (fl, e) \<Rightarrow> fr\<lparr> seg := (seg fr)\<lparr> f_seg := fl \<rparr>, err_var := e \<rparr>)"

definition Append_body :: "stmt list" where
  "Append_body = [Lock_mu, Append_parts, Add_size, Unlock_mu, Write_f]"

text \<open>The run of a list of statements: each statement with the state it leaves.\<close>

fun run_stmts :: "(stmt \<Rightarrow> frame \<Rightarrow> frame) \<Rightarrow> stmt list \<Rightarrow> frame \<Rightarrow> (stmt \<times> frame) list" where
  "run_stmts ex [] fr = []"
| "run_stmts ex (c # cs) fr = (c, ex c fr) # run_stmts ex cs (ex c fr)"

definition Append_trace :: "write_outcome \<Rightarrow> Segment \<Rightarrow> RawFragment \<Rightarrow> (stmt \<times> frame) list" where
  "Append_trace oc s frag =
     run_stmts (exec oc frag) Append_body \<lparr> seg = s, mu_held = False, err_var = None \<rparr>"

text \<open>What the call leaves and returns: the segment and \<open>err\<close> after the last statement.\<close>

definition Append :: "write_outcome \<Rightarrow> Segment \<Rightarrow> RawFragment \<Rightarrow> Segment \<times> error option" where
  "Append oc s frag =
     (let fr = snd (last (Append_trace oc s frag)) in (seg fr, err_var fr))"

text \<open>The states of the segment, in order, that a run leaves with the mutex free.\<close>

definition visible :: "(stmt \<times> frame) list \<Rightarrow> Segment list" where
  "visible tr = map (\<lambda>(c, fr). seg fr) (filter (\<lambda>(c, fr). \<not> mu_held fr) tr)"

definition Finalize :: "Duration \<Rightarrow> Segment \<Rightarrow> Segment" where
  "Finalize nextSegment s =
     s\<lparr> final := True,
        dur := (if start s <s nextSegment then nextSegment - start s else dur s),
        parts := map (\<lambda>p. p\<lparr> Bytes := None \<rparr>) (parts s) \<rparr>"

definition Release :: "Segment \<Rightarrow> Segment" where
  "Release s = s\<lparr> size_seg := 0, f_seg := None \<rparr>"

text \<open>
  A history of calls on one segment: each \<open>Append\<close> with the outcome of its write, and
  \<open>Finalize\<close>. \<open>run_calls\<close> is \<open>None\<close> as soon as an \<open>Append\<close> returns an error.
\<close>

datatype call = CallAppend write_outcome RawFragment | CallFinalize Duration

fun run_calls :: "call list \<Rightarrow> Segment \<Rightarrow> Segment option" where
  "run_calls [] s = Some s"
| "run_calls (CallAppend oc frag # cs) s =
     (case Append oc s frag of
        (s', None) \<Rightarrow> run_calls cs s'
      | (s', Some e) \<Rightarrow> None)"
| "run_calls (CallFinalize nextSegment # cs) s = run_calls cs (Finalize nextSegment s)"

fun appended :: "call list \<Rightarrow> RawFragment list" where
  "appended [] = []"
| "appended (CallAppend oc frag # cs) = frag # appended cs"
| "appended (CallFinalize nextSegment # cs) = appended cs"

definition length_matches :: "RawFragment \<Rightarrow> bool" where
  "length_matches frag = (Length frag = int (length (bytes_of frag)))"

definition stored :: "Segment \<Rightarrow> nat" where
  "stored s = (case f_seg s of None \<Rightarrow> 0 | Some d \<Rightarrow> length d)"

section \<open>Package fmp4\<close>

text \<open>
  The flag bits, sample flags and box tag that package \<open>fmp4io\<close> declares. Their values
  are not in these sources, so they are parameters of the model; what a statement
  needs of them it assumes, as \<open>flags_ok\<close>.
\<close>

record fmp4io =
  TrackFragDefaultBaseIsMOOF :: uint32
  TrackFragDefaultDuration :: uint32
  TrackFragDefaultSize :: uint32
  TrackFragDefaultFlags :: uint32
  TrackRunDataOffset :: uint32
  TrackRunFirstSampleFlags :: uint32
  TrackRunSampleDuration :: uint32
  TrackRunSampleSize :: uint32
  TrackRunSampleFlags :: uint32
  TrackRunSampleCTS :: uint32
  SampleNoDependencies :: uint32
  SampleNonKeyframe :: uint32
  MDAT :: uint32

text \<open>\<open>av.Packet\<close>, with the fields this package reads.\<close>

record Packet =
  IsKeyFrame :: bool
  CompositionTime :: Duration
  Time :: Duration
  Data :: "byte list"

text \<open>
  The boxes of \<open>fmp4io\<close>, with the fields this package sets, each with the boxes
  that its pointers lead to. \<open>makeFragment\<close> allocates the boxes it fills, so no one
  else holds them and it is modelled on these values; \<open>writeFragment\<close> is handed
  pointers and is modelled on a store.
\<close>

record TrackFragRunEntry =
  Duration :: uint32
  Size :: uint32
  Flags :: uint32
  CTS :: int32

record TrackFragHeader =
  Flags :: uint32
  TrackID :: uint32
  DefaultDuration :: uint32
  DefaultSize :: uint32
  DefaultFlags :: uint32

record TrackFragDecodeTime =
  Version :: byte
  Time :: uint64

record TrackFragRun =
  Version :: byte
  Flags :: uint32
  DataOffset :: uint32
  FirstSampleFlags :: uint32
  Entries :: "TrackFragRunEntry list"

record TrackFrag =
  Header :: TrackFragHeader
  DecodeTime :: TrackFragDecodeTime
  Run :: TrackFragRun

record MovieFragHeader =
  Seqnum :: uint32

record MovieFrag =
  Header :: MovieFragHeader
  Tracks :: "TrackFrag list"

text \<open>
  \<open>TrackFragmenter\<close>, with the fields \<open>makeFragment\<close> reads; \<open>isVideo\<close> stands for
  \<open>f.codecData.Type().IsVideo()\<close>.
\<close>

record TrackFragmenter =
  trackID :: uint32
  timeScale :: uint32
  isVideo :: bool
  pending :: "Packet list"

text \<open>
  \<open>fragmentWithData\<close>. \<open>trackFrag\<close> is a pointer, \<open>None\<close> for \<open>nil\<close>; what stands for
  the pointer is a parameter of the type. In what \<open>makeFragment\<close> returns it is the box
  just allocated, that the pointer leads to; in what \<open>writeFragment\<close> is handed it is
  an address in the store.
\<close>

record 'p fragmentWithData =
  trackFrag :: "'p option"
  packets :: "Packet list"

subsection \<open>makeFragment\<close>

text \<open>
  \<open>timescale.ToScale\<close> and \<open>timescale.Relative\<close> are parameters: \<open>ToScale\<close> maps a
  time and a time scale to 64-bit ticks, \<open>Relative\<close> to signed 32-bit ticks.
\<close>

type_synonym ToScale = "Duration \<Rightarrow> uint32 \<Rightarrow> uint64"
type_synonym Relative = "Duration \<Rightarrow> uint32 \<Rightarrow> int32"

text \<open>The flags of a sample that is not a key frame: by the kind of the track.\<close>

definition default_flags :: "fmp4io \<Rightarrow> TrackFragmenter \<Rightarrow> uint32" where
  "default_flags K f = (if isVideo f then SampleNonKeyframe K else SampleNoDependencies K)"

text \<open>The entry of the sample, before its composition time is looked at.\<close>

definition new_entry :: "fmp4io \<Rightarrow> uint32 \<Rightarrow> Packet \<Rightarrow> uint64 \<Rightarrow> uint64 \<Rightarrow> TrackFragRunEntry" where
  "new_entry K defaultFlags pkt curDTS nextDTS =
     \<lparr> Duration = ucast (nextDTS - curDTS),
       Size = word_of_nat (length (Data pkt)),
       Flags = (if IsKeyFrame pkt then SampleNoDependencies K else defaultFlags),
       CTS = 0 \<rparr>"

text \<open>
  The candidate defaults: taken from sample 0, then cleared to 0 by a sample that
  differs; the flags default is taken again from sample 1.
\<close>

definition seed_defaults :: "nat \<Rightarrow> TrackFragRunEntry \<Rightarrow> TrackFrag \<Rightarrow> TrackFrag" where
  "seed_defaults i entry track =
     (if i = 0 then
        track\<lparr> TrackFrag.Header := (TrackFrag.Header track)
                  \<lparr> DefaultDuration := TrackFragRunEntry.Duration entry,
                    DefaultSize := Size entry,
                    DefaultFlags := TrackFragRunEntry.Flags entry \<rparr>,
               Run := (Run track)\<lparr> FirstSampleFlags := TrackFragRunEntry.Flags entry \<rparr> \<rparr>
      else
        track\<lparr> TrackFrag.Header := (TrackFrag.Header track)
                  \<lparr> DefaultDuration :=
                      (if TrackFragRunEntry.Duration entry \<noteq> DefaultDuration (TrackFrag.Header track)
                       then 0 else DefaultDuration (TrackFrag.Header track)),
                    DefaultSize :=
                      (if Size entry \<noteq> DefaultSize (TrackFrag.Header track)
                       then 0 else DefaultSize (TrackFrag.Header track)),
                    DefaultFlags :=
                      (if i = 1 then TrackFragRunEntry.Flags entry
                       else if TrackFragRunEntry.Flags entry \<noteq> DefaultFlags (TrackFrag.Header track)
                       then 0 else DefaultFlags (TrackFrag.Header track)) \<rparr> \<rparr>)"

text \<open>A composition time other than 0 is added to the entry and marks the run.\<close>

definition add_cts :: "fmp4io \<Rightarrow> Relative \<Rightarrow> uint32 \<Rightarrow> Packet \<Rightarrow> TrackFrag \<times> TrackFragRunEntry \<Rightarrow> TrackFrag \<times> TrackFragRunEntry" where
  "add_cts K Relative scale pkt te =
     (case te of (track, entry) \<Rightarrow>
        if CompositionTime pkt \<noteq> 0 then
          let relCTS = Relative (CompositionTime pkt) scale;
              run1 = (Run track)\<lparr> TrackFragRun.Flags := TrackFragRun.Flags (Run track) OR TrackRunSampleCTS K \<rparr>;
              run2 = (if relCTS <s 0 then run1\<lparr> TrackFragRun.Version := 1 \<rparr> else run1)
          in (track\<lparr> Run := run2 \<rparr>, entry\<lparr> CTS := relCTS \<rparr>)
        else (track, entry))"

text \<open>One pass of the loop over \<open>f.pending[:entryCount]\<close>, at index \<open>i\<close>.\<close>

definition sample_step :: "fmp4io \<Rightarrow> ToScale \<Rightarrow> Relative \<Rightarrow> TrackFragmenter \<Rightarrow> uint32 \<Rightarrow> nat \<Rightarrow> TrackFrag \<times> uint64 \<Rightarrow> TrackFrag \<times> uint64" where
  "sample_step K ToScale Relative f defaultFlags i st =
     (case st of (track, curDTS) \<Rightarrow>
        let pkt = pending f ! i;
            nextTime = Packet.Time (pending f ! (i + 1));
            nextDTS = ToScale nextTime (timeScale f);
            entry = new_entry K defaultFlags pkt curDTS nextDTS
        in case add_cts K Relative (timeScale f) pkt (seed_defaults i entry track, entry) of
             (track', entry') \<Rightarrow>
               (track'\<lparr> Run := (Run track')\<lparr> Entries := (Entries (Run track'))[i := entry'] \<rparr> \<rparr>, nextDTS))"

text \<open>After the loop: a default that is not 0 is declared in the header, one that is 0 makes the run carry the field per sample.\<close>

definition finish_size :: "fmp4io \<Rightarrow> TrackFrag \<Rightarrow> TrackFrag" where
  "finish_size K track =
     (if DefaultSize (TrackFrag.Header track) \<noteq> 0
      then track\<lparr> TrackFrag.Header := (TrackFrag.Header track)
             \<lparr> TrackFragHeader.Flags := TrackFragHeader.Flags (TrackFrag.Header track) OR TrackFragDefaultSize K \<rparr> \<rparr>
      else track\<lparr> Run := (Run track)
             \<lparr> TrackFragRun.Flags := TrackFragRun.Flags (Run track) OR TrackRunSampleSize K \<rparr> \<rparr>)"

definition finish_duration :: "fmp4io \<Rightarrow> TrackFrag \<Rightarrow> TrackFrag" where
  "finish_duration K track =
     (if DefaultDuration (TrackFrag.Header track) \<noteq> 0
      then track\<lparr> TrackFrag.Header := (TrackFrag.Header track)
             \<lparr> TrackFragHeader.Flags := TrackFragHeader.Flags (TrackFrag.Header track) OR TrackFragDefaultDuration K \<rparr> \<rparr>
      else track\<lparr> Run := (Run track)
             \<lparr> TrackFragRun.Flags := TrackFragRun.Flags (Run track) OR TrackRunSampleDuration K \<rparr> \<rparr>)"

definition finish_flags :: "fmp4io \<Rightarrow> TrackFrag \<Rightarrow> TrackFrag" where
  "finish_flags K track =
     (if DefaultFlags (TrackFrag.Header track) \<noteq> 0
      then
        let track1 = track\<lparr> TrackFrag.Header := (TrackFrag.Header track)
              \<lparr> TrackFragHeader.Flags := TrackFragHeader.Flags (TrackFrag.Header track) OR TrackFragDefaultFlags K \<rparr> \<rparr>
        in if FirstSampleFlags (Run track1) \<noteq> DefaultFlags (TrackFrag.Header track1)
           then track1\<lparr> Run := (Run track1)
                  \<lparr> TrackFragRun.Flags := TrackFragRun.Flags (Run track1) OR TrackRunFirstSampleFlags K \<rparr> \<rparr>
           else track1
      else track\<lparr> Run := (Run track)
             \<lparr> TrackFragRun.Flags := TrackFragRun.Flags (Run track) OR TrackRunSampleFlags K \<rparr> \<rparr>)"

definition init_track :: "fmp4io \<Rightarrow> TrackFragmenter \<Rightarrow> uint64 \<Rightarrow> nat \<Rightarrow> TrackFrag" where
  "init_track K f startDTS entryCount =
     \<lparr> TrackFrag.Header =
         \<lparr> TrackFragHeader.Flags = TrackFragDefaultBaseIsMOOF K, TrackID = trackID f,
           DefaultDuration = 0, DefaultSize = 0, DefaultFlags = 0 \<rparr>,
       DecodeTime = \<lparr> TrackFragDecodeTime.Version = 1, TrackFragDecodeTime.Time = startDTS \<rparr>,
       Run =
         \<lparr> TrackFragRun.Version = 0, TrackFragRun.Flags = TrackRunDataOffset K, DataOffset = 0,
           FirstSampleFlags = 0,
           Entries = replicate entryCount
             \<lparr> TrackFragRunEntry.Duration = 0, Size = 0, TrackFragRunEntry.Flags = 0, CTS = 0 \<rparr> \<rparr> \<rparr>"

text \<open>
  \<open>makeFragment\<close> returns the fragment and the fragmenter as it leaves it. With fewer
  than two packets pending the fragment is the zero value: no track fragment
  (\<open>nil\<close>) and no packets.
\<close>

definition makeFragment :: "fmp4io \<Rightarrow> ToScale \<Rightarrow> Relative \<Rightarrow> TrackFragmenter \<Rightarrow> TrackFrag fragmentWithData \<times> TrackFragmenter" where
  "makeFragment K ToScale Relative f =
     (if length (pending f) < 2 then (\<lparr> trackFrag = None, packets = [] \<rparr>, f)
      else
        let entryCount = length (pending f) - 1;
            startTime = Packet.Time (pending f ! 0);
            startDTS = ToScale startTime (timeScale f);
            defaultFlags = default_flags K f;
            track = init_track K f startDTS entryCount;
            looped = fold (sample_step K ToScale Relative f defaultFlags) [0..<entryCount] (track, startDTS);
            track' = finish_flags K (finish_duration K (finish_size K (fst looped)))
        in (\<lparr> trackFrag = Some track', packets = take entryCount (pending f) \<rparr>,
            f\<lparr> pending := [pending f ! entryCount] \<rparr>))"

text \<open>
  The state of the loop after \<open>m\<close> passes, and the track fragment that
  \<open>makeFragment\<close> returns when at least two packets are pending.
\<close>

definition loop_state :: "fmp4io \<Rightarrow> ToScale \<Rightarrow> Relative \<Rightarrow> TrackFragmenter \<Rightarrow> nat \<Rightarrow> TrackFrag \<times> uint64" where
  "loop_state K ToScale Relative f m =
     fold (sample_step K ToScale Relative f (default_flags K f)) [0..<m]
       (init_track K f (ToScale (Packet.Time (pending f ! 0)) (timeScale f)) (length (pending f) - 1),
        ToScale (Packet.Time (pending f ! 0)) (timeScale f))"

definition final_track :: "fmp4io \<Rightarrow> ToScale \<Rightarrow> Relative \<Rightarrow> TrackFragmenter \<Rightarrow> TrackFrag" where
  "final_track K ToScale Relative f =
     finish_flags K (finish_duration K (finish_size K
       (fst (loop_state K ToScale Relative f (length (pending f) - 1)))))"

text \<open>
  The decode time of packet \<open>i\<close> in ticks. The durations add up without wrapping when
  the ticks do not decrease from a packet to the next and each step is below \<open>2 ^ 32\<close>.
\<close>

definition ticks :: "ToScale \<Rightarrow> TrackFragmenter \<Rightarrow> nat \<Rightarrow> uint64" where
  "ticks ToScale f i = ToScale (Packet.Time (pending f ! i)) (timeScale f)"

definition no_wrap :: "ToScale \<Rightarrow> TrackFragmenter \<Rightarrow> bool" where
  "no_wrap ToScale f =
     list_all (\<lambda>i. ticks ToScale f i \<le> ticks ToScale f (i + 1) \<and>
                    unat (ticks ToScale f (i + 1)) - unat (ticks ToScale f i) < 2 ^ 32)
       [0..<length (pending f) - 1]"

text \<open>
  What the loop leaves at index \<open>i\<close> of the run: the entry of packet \<open>i\<close>, its duration
  the distance in ticks to packet \<open>i + 1\<close>.
\<close>

definition entry_at :: "fmp4io \<Rightarrow> ToScale \<Rightarrow> Relative \<Rightarrow> TrackFragmenter \<Rightarrow> nat \<Rightarrow> TrackFragRunEntry" where
  "entry_at K ToScale Relative f i =
     (let pkt = pending f ! i;
          e = new_entry K (default_flags K f) pkt
                (ToScale (Packet.Time pkt) (timeScale f))
                (ToScale (Packet.Time (pending f ! (i + 1))) (timeScale f))
      in if CompositionTime pkt \<noteq> 0
         then e\<lparr> CTS := Relative (CompositionTime pkt) (timeScale f) \<rparr> else e)"

text \<open>
  Reading a flag word: a flag is set when the word has a bit of it. The flags of one
  word must be told apart, so each is not 0 and no two share a bit; the sample flags
  must not be 0, the value that stands for "no default".
\<close>

definition flag_set :: "uint32 \<Rightarrow> uint32 \<Rightarrow> bool" where
  "flag_set w c = (w AND c \<noteq> 0)"

fun disjoint_bits :: "uint32 list \<Rightarrow> bool" where
  "disjoint_bits [] = True"
| "disjoint_bits (c # cs) = (c \<noteq> 0 \<and> list_all (\<lambda>d. c AND d = 0) cs \<and> disjoint_bits cs)"

definition flags_ok :: "fmp4io \<Rightarrow> bool" where
  "flags_ok K =
     (disjoint_bits [TrackFragDefaultBaseIsMOOF K, TrackFragDefaultDuration K,
        TrackFragDefaultSize K, TrackFragDefaultFlags K] \<and>
      disjoint_bits [TrackRunDataOffset K, TrackRunFirstSampleFlags K, TrackRunSampleDuration K,
        TrackRunSampleSize K, TrackRunSampleFlags K, TrackRunSampleCTS K])"

definition sample_flags_ok :: "fmp4io \<Rightarrow> bool" where
  "sample_flags_ok K = (SampleNoDependencies K \<noteq> 0 \<and> SampleNonKeyframe K \<noteq> 0)"

definition uniform :: "uint32 list \<Rightarrow> bool" where
  "uniform vs = list_all (\<lambda>v. v = hd vs) vs"

subsection \<open>writeFragment\<close>

text \<open>
  \<open>writeFragment\<close> writes through pointers: a \<open>fragmentWithData\<close> holds a
  \<open>*TrackFrag\<close>, and a \<open>TrackFrag\<close> holds its header, its decode time and its run as
  pointers. So here the boxes are in a store, and a pointer is an address or \<open>nil\<close>
  (\<open>None\<close>). At the address of a \<open>TrackFrag\<close> the store has the header and the decode
  time that its pointers lead to, which \<open>writeFragment\<close> leaves to the encoder, and its
  pointer \<open>Run\<close>; at the address of a \<open>TrackFragRun\<close> it has the run. Two fragments may
  hold the same \<open>*TrackFrag\<close>, and two track fragments the same run.
\<close>

type_synonym addr = nat

record store =
  Header_of :: "addr \<Rightarrow> TrackFragHeader"
  DecodeTime_of :: "addr \<Rightarrow> TrackFragDecodeTime"
  Run_of :: "addr \<Rightarrow> addr option"
  run_at :: "addr \<Rightarrow> TrackFragRun"

text \<open>
  The sink is an \<open>io.Writer\<close>: a state and a \<open>Write\<close> that returns the new state and
  the error, if any. \<open>moof.Len\<close> and \<open>moof.Marshal\<close> are parameters: they read the movie
  fragment through its pointers, and \<open>Marshal\<close> gives the bytes that the encoder puts at
  the start of the buffer it is handed. A call either returns or panics (a \<open>nil\<close>
  pointer, a buffer too short for the encoder).
\<close>

type_synonym 'w Writer = "'w \<Rightarrow> byte list \<Rightarrow> 'w \<times> error option"

datatype 'a outcome = Returns 'a | Panics

definition PutU32BE :: "byte list \<Rightarrow> nat \<Rightarrow> uint32 \<Rightarrow> byte list" where
  "PutU32BE b off v =
     b[off := ucast (drop_bit 24 v), off + 1 := ucast (drop_bit 16 v),
       off + 2 := ucast (drop_bit 8 v), off + 3 := ucast v]"

text \<open>
  \<open>p.Run\<close> for a \<open>*TrackFrag\<close> \<open>p\<close>: the address of the run, or \<open>None\<close> when \<open>p\<close> or
  \<open>p.Run\<close> is \<open>nil\<close>, where \<open>p.Run.DataOffset = v\<close> panics. Otherwise the assignment
  changes the run at that address, for every pointer that leads to it.
\<close>

definition Run_ptr :: "store \<Rightarrow> addr option \<Rightarrow> addr option" where
  "Run_ptr h p = (case p of None \<Rightarrow> None | Some a \<Rightarrow> Run_of h a)"

definition store_DataOffset :: "uint32 \<Rightarrow> addr \<Rightarrow> store \<Rightarrow> store" where
  "store_DataOffset v r h = h\<lparr> run_at := (run_at h)(r := (run_at h r)\<lparr> DataOffset := v \<rparr>) \<rparr>"

text \<open>
  What is read through a \<open>*TrackFrag\<close>: the track fragment with its boxes, or \<open>None\<close>
  when there is a \<open>nil\<close> on the way to the run. \<open>new_moof\<close> is the movie fragment that
  \<open>writeFragment\<close> fills out, as it is read through its pointers in a given store.
\<close>

definition load :: "store \<Rightarrow> addr option \<Rightarrow> TrackFrag option" where
  "load h p =
     (case p of
        None \<Rightarrow> None
      | Some a \<Rightarrow>
          (case Run_of h a of
             None \<Rightarrow> None
           | Some r \<Rightarrow>
               Some \<lparr> TrackFrag.Header = Header_of h a, DecodeTime = DecodeTime_of h a,
                      Run = run_at h r \<rparr>))"

definition nil_track :: "store \<Rightarrow> addr fragmentWithData \<Rightarrow> bool" where
  "nil_track h track = (load h (trackFrag track) = None)"

definition the_tracks :: "store \<Rightarrow> addr fragmentWithData list \<Rightarrow> TrackFrag list" where
  "the_tracks h tracks =
     concat (map (\<lambda>track. case load h (trackFrag track) of None \<Rightarrow> [] | Some t \<Rightarrow> [t]) tracks)"

definition new_moof :: "store \<Rightarrow> uint32 \<Rightarrow> addr fragmentWithData list \<Rightarrow> MovieFrag" where
  "new_moof h seqNum tracks =
     \<lparr> MovieFrag.Header = \<lparr> Seqnum = seqNum \<rparr>, Tracks = the_tracks h tracks \<rparr>"

definition payload_len :: "Packet list \<Rightarrow> nat \<Rightarrow> nat" where
  "payload_len pkts dataOffset = fold (\<lambda>pkt n. n + length (Data pkt)) pkts dataOffset"

text \<open>
  The loop that assigns the data offsets, from track \<open>i\<close> on; \<open>mtracks\<close> is
  \<open>moof.Tracks\<close>, the pointers of the tracks. \<open>None\<close> is a panic.
\<close>

fun assign_offsets :: "nat \<Rightarrow> nat \<Rightarrow> 'p fragmentWithData list \<Rightarrow> addr option list \<Rightarrow> store \<Rightarrow> (store \<times> nat) option" where
  "assign_offsets dataOffset i [] mtracks h = Some (h, dataOffset)"
| "assign_offsets dataOffset i (track # rest) mtracks h =
     (if length mtracks \<le> i then None
      else
        case Run_ptr h (mtracks ! i) of
          None \<Rightarrow> None
        | Some r \<Rightarrow>
            assign_offsets (payload_len (packets track) dataOffset) (Suc i) rest mtracks
              (store_DataOffset (word_of_nat dataOffset) r h))"

fun write_packets :: "'w Writer \<Rightarrow> 'w \<Rightarrow> Packet list \<Rightarrow> 'w \<times> error option" where
  "write_packets Write w [] = (w, None)"
| "write_packets Write w (pkt # pkts) =
     (case Write w (Data pkt) of
        (w', Some e) \<Rightarrow> (w', Some e)
      | (w', None) \<Rightarrow> write_packets Write w' pkts)"

text \<open>
  The loop that writes the payload, from track \<open>i\<close> on. It assigns each run's data
  offset once more, now to the final value of \<open>dataOffset\<close>.
\<close>

fun write_tracks :: "'w Writer \<Rightarrow> nat \<Rightarrow> nat \<Rightarrow> 'p fragmentWithData list \<Rightarrow> addr option list \<Rightarrow> store \<Rightarrow> 'w \<Rightarrow> ('w \<times> store \<times> error option) outcome" where
  "write_tracks Write dataOffset i [] mtracks h w = Returns (w, h, None)"
| "write_tracks Write dataOffset i (track # rest) mtracks h w =
     (if length mtracks \<le> i then Panics
      else
        case Run_ptr h (mtracks ! i) of
          None \<Rightarrow> Panics
        | Some r \<Rightarrow>
            let h' = store_DataOffset (word_of_nat dataOffset) r h in
            case write_packets Write w (packets track) of
              (w', Some e) \<Rightarrow> Returns (w', h', Some e)
            | (w', None) \<Rightarrow> write_tracks Write dataOffset (Suc i) rest mtracks h' w')"

text \<open>
  \<open>writeFragment\<close> returns the sink, the store and the error. With a \<open>nil\<close> on the way
  to the run of some track the call panics: in \<open>moof.Len\<close>, or else in the loop that
  assigns the data offsets, before anything is written.
\<close>

definition writeFragment :: "(MovieFrag \<Rightarrow> nat) \<Rightarrow> (MovieFrag \<Rightarrow> byte list) \<Rightarrow> fmp4io \<Rightarrow> 'w Writer \<Rightarrow> 'w \<Rightarrow> store \<Rightarrow> addr fragmentWithData list \<Rightarrow> uint32 \<Rightarrow> ('w \<times> store \<times> error option) outcome" where
  "writeFragment Len Marshal K Write w h tracks seqNum =
     (if list_ex (nil_track h) tracks then Panics
      else
        let mtracks = map trackFrag tracks;
            dataBase = Len (new_moof h seqNum tracks) + 8
        in case assign_offsets dataBase 0 tracks mtracks h of
             None \<Rightarrow> Panics
           | Some (h1, dataOffset) \<Rightarrow>
               let enc = Marshal (new_moof h1 seqNum tracks) in
               if dataBase < length enc then Panics
               else
                 let b0 = enc @ replicate (dataBase - length enc) 0;
                     b1 = PutU32BE b0 (dataBase - 8) (word_of_nat (dataOffset - dataBase + 8));
                     b2 = PutU32BE b1 (dataBase - 4) (MDAT K)
                 in case Write w b2 of
                      (w', Some e) \<Rightarrow> Returns (w', h1, Some e)
                    | (w', None) \<Rightarrow> write_tracks Write dataOffset 0 tracks mtracks h1 w')"

text \<open>
  \<open>writeFragment\<close> without the assignment in the loop that writes the payload: the
  function to compare with.
\<close>

fun write_tracks_plain :: "'w Writer \<Rightarrow> 'p fragmentWithData list \<Rightarrow> store \<Rightarrow> 'w \<Rightarrow> ('w \<times> store \<times> error option) outcome" where
  "write_tracks_plain Write [] h w = Returns (w, h, None)"
| "write_tracks_plain Write (track # rest) h w =
     (case write_packets Write w (packets track) of
        (w', Some e) \<Rightarrow> Returns (w', h, Some e)
      | (w', None) \<Rightarrow> write_tracks_plain Write rest h w')"

definition writeFragment_plain :: "(MovieFrag \<Rightarrow> nat) \<Rightarrow> (MovieFrag \<Rightarrow> byte list) \<Rightarrow> fmp4io \<Rightarrow> 'w Writer \<Rightarrow> 'w \<Rightarrow> store \<Rightarrow> addr fragmentWithData list \<Rightarrow> uint32 \<Rightarrow> ('w \<times> store \<times> error option) outcome" where
  "writeFragment_plain Len Marshal K Write w h tracks seqNum =
     (if list_ex (nil_track h) tracks then Panics
      else
        let mtracks = map trackFrag tracks;
            dataBase = Len (new_moof h seqNum tracks) + 8
        in case assign_offsets dataBase 0 tracks mtracks h of
             None \<Rightarrow> Panics
           | Some (h1, dataOffset) \<Rightarrow>
               let enc = Marshal (new_moof h1 seqNum tracks) in
               if dataBase < length enc then Panics
               else
                 let b0 = enc @ replicate (dataBase - length enc) 0;
                     b1 = PutU32BE b0 (dataBase - 8) (word_of_nat (dataOffset - dataBase + 8));
                     b2 = PutU32BE b1 (dataBase - 4) (MDAT K)
                 in case Write w b2 of
                      (w', Some e) \<Rightarrow> Returns (w', h1, Some e)
                    | (w', None) \<Rightarrow> write_tracks_plain Write tracks h1 w')"

text \<open>What a call did to the sink and what it returned.\<close>

fun on_sink :: "('w \<times> store \<times> error option) outcome \<Rightarrow> ('w \<times> error option) outcome" where
  "on_sink Panics = Panics"
| "on_sink (Returns (w, h, e)) = Returns (w, e)"

text \<open>
  The layout of the output: four bytes big-endian and their value read back, the payload
  of a track (the data of its packets in order), and where the payload of track \<open>i\<close>
  starts when the payload of the first track starts at \<open>dataBase\<close>. The sink of the
  statements about the bytes is a buffer, whose \<open>Write\<close> appends and returns no error.
\<close>

definition u32be :: "uint32 \<Rightarrow> byte list" where
  "u32be v = [ucast (drop_bit 24 v), ucast (drop_bit 16 v), ucast (drop_bit 8 v), ucast v]"

definition read_u32be :: "byte list \<Rightarrow> uint32" where
  "read_u32be b =
     push_bit 24 (ucast (b ! 0)) OR push_bit 16 (ucast (b ! 1)) OR
     push_bit 8 (ucast (b ! 2)) OR ucast (b ! 3)"

definition payload :: "'p fragmentWithData \<Rightarrow> byte list" where
  "payload track = concat (map Data (packets track))"

definition payload_pos :: "nat \<Rightarrow> 'p fragmentWithData list \<Rightarrow> nat \<Rightarrow> nat" where
  "payload_pos dataBase tracks i = dataBase + length (concat (map payload (take i tracks)))"

definition buffer_Write :: "byte list Writer" where
  "buffer_Write w b = (w @ b, None)"

text \<open>
  The store after the loop that assigns the data offsets, and the movie fragment as it
  is handed to the encoder, read through its pointers in that store. \<open>set_DataOffset\<close>
  is the change of the data offset in a track fragment that has been read. The runs that
  the tracks lead to are \<open>runs_of\<close>.
\<close>

definition assigned :: "(MovieFrag \<Rightarrow> nat) \<Rightarrow> store \<Rightarrow> uint32 \<Rightarrow> addr fragmentWithData list \<Rightarrow> store" where
  "assigned Len h seqNum tracks =
     (case assign_offsets (Len (new_moof h seqNum tracks) + 8) 0 tracks (map trackFrag tracks) h of
        None \<Rightarrow> h
      | Some (h1, dataOffset) \<Rightarrow> h1)"

definition marshalled_moof :: "(MovieFrag \<Rightarrow> nat) \<Rightarrow> store \<Rightarrow> uint32 \<Rightarrow> addr fragmentWithData list \<Rightarrow> MovieFrag" where
  "marshalled_moof Len h seqNum tracks = new_moof (assigned Len h seqNum tracks) seqNum tracks"

definition set_DataOffset :: "uint32 \<Rightarrow> TrackFrag \<Rightarrow> TrackFrag" where
  "set_DataOffset v track = track\<lparr> Run := (Run track)\<lparr> DataOffset := v \<rparr> \<rparr>"

definition runs_of :: "store \<Rightarrow> addr fragmentWithData list \<Rightarrow> addr option list" where
  "runs_of h tracks = map (\<lambda>track. Run_ptr h (trackFrag track)) tracks"

section \<open>Example values\<close>

text \<open>
  An encoder to try the statements about \<open>writeFragment\<close> with: the sequence number and
  the number of tracks, then for each track its id, its data offset and its number of
  entries, four bytes each. (It is not the box layout of \<open>fmp4io\<close>, which is not among
  the sources.)
\<close>

definition try_Marshal_track :: "TrackFrag \<Rightarrow> byte list" where
  "try_Marshal_track t =
     u32be (TrackID (TrackFrag.Header t)) @ u32be (DataOffset (Run t)) @
     u32be (word_of_nat (length (Entries (Run t))))"

definition try_Marshal :: "MovieFrag \<Rightarrow> byte list" where
  "try_Marshal m =
     u32be (Seqnum (MovieFrag.Header m)) @ u32be (word_of_nat (length (Tracks m))) @
     concat (map try_Marshal_track (Tracks m))"

definition try_Len :: "MovieFrag \<Rightarrow> nat" where
  "try_Len m = 8 + 12 * length (Tracks m)"

text \<open>
  Modelled from the spec: \<open>timescale.ToScale\<close> and \<open>timescale.Relative\<close>, of package
  \<open>timescale\<close>, which is not among the sources. The spec has them rescale a time to
  whole ticks of the target rate; a \<open>time.Duration\<close> counts nanoseconds, and this
  model rounds down.
\<close>

definition ToScale_spec :: ToScale where
  "ToScale_spec t scale = word_of_int (sint t * uint scale div 1000000000)"

definition Relative_spec :: Relative where
  "Relative_spec t scale = word_of_int (sint t * uint scale div 1000000000)"

text \<open>The flag bits of ISO/IEC 14496-12 for the parameters of the model.\<close>

definition iso_flags :: fmp4io where
  "iso_flags =
     \<lparr> TrackFragDefaultBaseIsMOOF = 0x020000, TrackFragDefaultDuration = 0x08,
       TrackFragDefaultSize = 0x10, TrackFragDefaultFlags = 0x20,
       TrackRunDataOffset = 0x01, TrackRunFirstSampleFlags = 0x04,
       TrackRunSampleDuration = 0x100, TrackRunSampleSize = 0x200,
       TrackRunSampleFlags = 0x400, TrackRunSampleCTS = 0x800,
       SampleNoDependencies = 0x02000000, SampleNonKeyframe = 0x01010000,
       MDAT = 0x6D646174 \<rparr>"

definition example_segment :: Segment where
  "example_segment =
     \<lparr> start = 0, id_seg = 123, dcn = False, baseName = ''3f'', programTime = [],
       parts = [], f_seg = Some [], final = False, size_seg = 0, dur = 0 \<rparr>"

definition example_fragment :: RawFragment where
  "example_fragment =
     \<lparr> Bytes = Some [1, 2, 3], Length = 3, Independent = True,
       RawFragment.Duration = 1000000000 \<rparr>"

definition example_calls :: "call list" where
  "example_calls =
     [CallAppend WriteOk example_fragment, CallAppend WriteOk example_fragment,
      CallFinalize 2000000000]"

definition example_final :: Segment where
  "example_final =
     example_segment
       \<lparr> parts := [example_fragment\<lparr> Bytes := None \<rparr>, example_fragment\<lparr> Bytes := None \<rparr>],
         f_seg := Some [1, 2, 3, 1, 2, 3], final := True, size_seg := 6, dur := 2000000000 \<rparr>"

text \<open>
  A video track with four packets pending, one second, two seconds and one second
  apart, three bytes each, the first a key frame; and a track whose three pending
  packets are empty and a nanosecond apart.
\<close>

definition example_packet :: "bool \<Rightarrow> Duration \<Rightarrow> byte list \<Rightarrow> Packet" where
  "example_packet key t d = \<lparr> IsKeyFrame = key, CompositionTime = 0, Packet.Time = t, Data = d \<rparr>"

definition example_fragmenter :: TrackFragmenter where
  "example_fragmenter =
     \<lparr> trackID = 1, timeScale = 1000, isVideo = True,
       pending = [example_packet True 0 [1, 2, 3], example_packet False 1000000000 [4, 5, 6],
                  example_packet False 3000000000 [7, 8, 9], example_packet False 4000000000 [10]] \<rparr>"

definition empty_fragmenter :: TrackFragmenter where
  "empty_fragmenter =
     \<lparr> trackID = 1, timeScale = 1000, isVideo = False,
       pending = [example_packet True 0 [], example_packet True 1 [], example_packet True 2 []] \<rparr>"

text \<open>The track fragments that \<open>makeFragment\<close> returns for the two.\<close>

definition example_track :: TrackFrag where
  "example_track =
     \<lparr> TrackFrag.Header =
         \<lparr> TrackFragHeader.Flags = 0x020030, TrackID = 1, DefaultDuration = 0,
           DefaultSize = 3, DefaultFlags = 0x01010000 \<rparr>,
       DecodeTime = \<lparr> TrackFragDecodeTime.Version = 1, TrackFragDecodeTime.Time = 0 \<rparr>,
       Run =
         \<lparr> TrackFragRun.Version = 0, TrackFragRun.Flags = 0x105, DataOffset = 0,
           FirstSampleFlags = 0x02000000,
           Entries =
             [\<lparr> TrackFragRunEntry.Duration = 1000, Size = 3,
                TrackFragRunEntry.Flags = 0x02000000, CTS = 0 \<rparr>,
              \<lparr> TrackFragRunEntry.Duration = 2000, Size = 3,
                TrackFragRunEntry.Flags = 0x01010000, CTS = 0 \<rparr>,
              \<lparr> TrackFragRunEntry.Duration = 1000, Size = 3,
                TrackFragRunEntry.Flags = 0x01010000, CTS = 0 \<rparr>] \<rparr> \<rparr>"

definition empty_track :: TrackFrag where
  "empty_track =
     \<lparr> TrackFrag.Header =
         \<lparr> TrackFragHeader.Flags = 0x020020, TrackID = 1, DefaultDuration = 0,
           DefaultSize = 0, DefaultFlags = 0x02000000 \<rparr>,
       DecodeTime = \<lparr> TrackFragDecodeTime.Version = 1, TrackFragDecodeTime.Time = 0 \<rparr>,
       Run =
         \<lparr> TrackFragRun.Version = 0, TrackFragRun.Flags = 0x301, DataOffset = 0,
           FirstSampleFlags = 0x02000000,
           Entries =
             [\<lparr> TrackFragRunEntry.Duration = 0, Size = 0,
                TrackFragRunEntry.Flags = 0x02000000, CTS = 0 \<rparr>,
              \<lparr> TrackFragRunEntry.Duration = 0, Size = 0,
                TrackFragRunEntry.Flags = 0x02000000, CTS = 0 \<rparr>] \<rparr> \<rparr>"

text \<open>
  A store with the two track fragments above at the addresses 0 and 1, their runs at
  the addresses 10 and 11. Then two tracks to write, of nine and two bytes, each with its
  own track fragment; two tracks of three and two bytes that hold the same track
  fragment; and one track whose single packet has \<open>2 ^ 32 - 8\<close> bytes.
\<close>

definition example_store :: store where
  "example_store =
     \<lparr> Header_of = (\<lambda>a. if a = 0 then TrackFrag.Header example_track
                          else TrackFrag.Header empty_track),
       DecodeTime_of = (\<lambda>a. if a = 0 then DecodeTime example_track else DecodeTime empty_track),
       Run_of = (\<lambda>a. if a = 0 then Some 10 else if a = 1 then Some 11 else None),
       run_at = (\<lambda>r. if r = 10 then Run example_track else Run empty_track) \<rparr>"

definition example_tracks :: "addr fragmentWithData list" where
  "example_tracks =
     [\<lparr> trackFrag = Some 0,
        packets = [example_packet True 0 [1, 2, 3], example_packet False 1000000000 [4, 5, 6],
                   example_packet False 3000000000 [7, 8, 9]] \<rparr>,
      \<lparr> trackFrag = Some 1, packets = [example_packet True 0 [10, 11]] \<rparr>]"

definition shared_tracks :: "addr fragmentWithData list" where
  "shared_tracks =
     [\<lparr> trackFrag = Some 0, packets = [example_packet True 0 [1, 2, 3]] \<rparr>,
      \<lparr> trackFrag = Some 0, packets = [example_packet True 0 [10, 11]] \<rparr>]"

definition big_tracks :: "addr fragmentWithData list" where
  "big_tracks =
     [\<lparr> trackFrag = Some 1,
        packets = [example_packet True 0 (replicate 4294967288 0)] \<rparr>]"

section \<open>ParseName and the names of segments and parts\<close>

lemma digits_all:
  "list_all (\<lambda>d. digitVal (digits ! d) = Some d \<and> digits ! d \<noteq> CHR ''.'' \<and>
      digits ! d \<noteq> CHR ''-'' \<and> digits ! d \<noteq> CHR ''+'') [0..<36]"
  by (simp add: digits_def digitVal_def lower_def Let_def upt_rec)

lemma digit_props:
  assumes "d < 36"
  shows "digitVal (digits ! d) = Some d" and "digits ! d \<noteq> CHR ''.''"
    and "digits ! d \<noteq> CHR ''-''" and "digits ! d \<noteq> CHR ''+''"
  using digits_all assms by (simp_all add: list_all_iff)

lemma formatBits_unfold:
  "formatBits b u a =
     (if 2 \<le> b \<and> b \<le> u then formatBits b (u div b) (digits ! (u mod b) # a)
      else digits ! u # a)"
  by (rule formatBits.simps)

lemma formatBits_append: "formatBits b u a = formatBits b u [] @ a"
proof (induction u arbitrary: a rule: less_induct)
  case (less u)
  show ?case
  proof (cases "2 \<le> b \<and> b \<le> u")
    case True
    then have d: "u div b < u" by simp
    have "formatBits b u a = formatBits b (u div b) (digits ! (u mod b) # a)"
      using True by (simp only: formatBits_unfold [of b u a] if_True simp_thms)
    also have "\<dots> = formatBits b (u div b) [] @ digits ! (u mod b) # a"
      by (rule less.IH [OF d])
    also have "\<dots> = (formatBits b (u div b) [] @ [digits ! (u mod b)]) @ a" by simp
    also have "formatBits b (u div b) [] @ [digits ! (u mod b)] =
        formatBits b (u div b) [digits ! (u mod b)]"
      by (rule less.IH [OF d, symmetric])
    also have "\<dots> = formatBits b u []"
      using True by (simp only: formatBits_unfold [of b u "[]"] if_True simp_thms)
    finally show ?thesis .
  next
    case False
    then show ?thesis
      by (simp only: formatBits_unfold [of b u a] formatBits_unfold [of b u "[]"] if_False) simp
  qed
qed

lemma formatBits_small: "u < b \<Longrightarrow> formatBits b u [] = [digits ! u]"
  by (simp only: formatBits_unfold [of b u "[]"]) simp

lemma formatBits_large:
  assumes "2 \<le> b" and "b \<le> u"
  shows "formatBits b u [] = formatBits b (u div b) [] @ [digits ! (u mod b)]"
proof -
  from assms have "formatBits b u [] = formatBits b (u div b) [digits ! (u mod b)]"
    by (simp only: formatBits_unfold [of b u "[]"]) simp
  then show ?thesis by (simp only: formatBits_append [of b "u div b" "[digits ! (u mod b)]"])
qed

lemma formatBits_chars:
  assumes "2 \<le> b" and "b \<le> 36"
  shows "c \<in> set (formatBits b u []) \<Longrightarrow> \<exists>d<36. c = digits ! d"
proof (induction u arbitrary: c rule: less_induct)
  case (less u)
  show ?case
  proof (cases "b \<le> u")
    case True
    with assms have d: "u div b < u" by simp
    from assms have m: "u mod b < 36"
      by (metis less_le_trans mod_less_divisor not_numeral_le_zero order_less_le_trans zero_less_iff_neq_zero)
    from less.prems have "c \<in> set (formatBits b (u div b) []) \<or> c = digits ! (u mod b)"
      by (auto simp: formatBits_large [OF assms(1) True])
    with less.IH [OF d] m show ?thesis by blast
  next
    case False
    with assms have u: "u < b" "u < 36" by simp_all
    with less.prems have "c = digits ! u" by (simp add: formatBits_small)
    with u(2) show ?thesis by blast
  qed
qed

lemma formatBits_hd:
  assumes "2 \<le> b" and "b \<le> 36"
  shows "formatBits b u [] \<noteq> [] \<and> (\<exists>d<36. hd (formatBits b u []) = digits ! d)"
proof -
  have n: "formatBits b u [] \<noteq> []"
    by (subst formatBits_append) (simp add: formatBits_unfold [of b u "[]"] formatBits_append [of b "u div b" "[digits ! (u mod b)]"])
  then have "hd (formatBits b u []) \<in> set (formatBits b u [])" by simp
  with formatBits_chars [OF assms] n show ?thesis by blast
qed

lemma loop_step:
  assumes "2 \<le> b" and "b \<le> 36" and "d < b" and "n * b + d \<le> maxVal" and "maxVal < 2 ^ 64"
  shows "ParseUint_loop b ((2 ^ 64 - 1) div b + 1) maxVal n (digits ! d # rest) =
         ParseUint_loop b ((2 ^ 64 - 1) div b + 1) maxVal (n * b + d) rest"
proof -
  from assms have d: "digitVal (digits ! d) = Some d" by (simp add: digit_props)
  from assms have nb: "n * b \<le> 2 ^ 64 - 1" "n * b < 2 ^ 64" "n * b + d < 2 ^ 64" by simp_all
  from assms(1) nb(1) have "n \<le> (2 ^ 64 - 1) div b"
    by (simp add: less_eq_div_iff_mult_less_eq)
  then have c: "\<not> (2 ^ 64 - 1) div b + 1 \<le> n" by simp
  from nb have m: "(n * b) mod 2 ^ 64 = n * b" "(n * b + d) mod 2 ^ 64 = n * b + d" by simp_all
  from assms(3) have nd: "\<not> b \<le> d" by simp
  from assms(4) have mv: "\<not> maxVal < n * b + d" by simp
  show ?thesis
    by (simp only: ParseUint_loop.simps d option.case nd c if_False Let_def m mv simp_thms
          not_add_less1)
qed

lemma loop_formatBits:
  assumes "2 \<le> b" and "b \<le> 36" and "maxVal < 2 ^ 64"
  shows "n * b ^ length (formatBits b u []) + u \<le> maxVal \<Longrightarrow>
     ParseUint_loop b ((2 ^ 64 - 1) div b + 1) maxVal n (formatBits b u [] @ rest) =
     ParseUint_loop b ((2 ^ 64 - 1) div b + 1) maxVal (n * b ^ length (formatBits b u []) + u) rest"
proof (induction u arbitrary: n rest rule: less_induct)
  case (less u)
  show ?case
  proof (cases "b \<le> u")
    case False
    then have u: "u < b" by simp
    with less.prems have "n * b + u \<le> maxVal" by (simp add: formatBits_small)
    from loop_step [OF assms(1,2) u this assms(3)] u show ?thesis
      by (simp add: formatBits_small)
  next
    case True
    with assms have d: "u div b < u" by simp
    define k where "k = length (formatBits b (u div b) [])"
    have f: "formatBits b u [] = formatBits b (u div b) [] @ [digits ! (u mod b)]"
      by (rule formatBits_large [OF assms(1) True])
    then have l: "length (formatBits b u []) = Suc k" by (simp add: k_def)
    have e: "(n * b ^ k + u div b) * b + u mod b = n * b ^ Suc k + u"
      by (simp add: algebra_simps)
    from less.prems have p: "n * b ^ Suc k + u \<le> maxVal" by (simp only: l)
    from assms(1) have "n * b ^ k + u div b \<le> (n * b ^ k + u div b) * b" by simp
    also have "\<dots> \<le> (n * b ^ k + u div b) * b + u mod b" by simp
    also have "\<dots> \<le> maxVal" using p by (simp only: e)
    finally have q: "n * b ^ length (formatBits b (u div b) []) + u div b \<le> maxVal"
      by (simp only: k_def)
    from assms(1) have mb: "u mod b < b" by simp
    from p have s: "(n * b ^ k + u div b) * b + u mod b \<le> maxVal" by (simp only: e)
    have "ParseUint_loop b ((2 ^ 64 - 1) div b + 1) maxVal n (formatBits b u [] @ rest) =
        ParseUint_loop b ((2 ^ 64 - 1) div b + 1) maxVal n
          (formatBits b (u div b) [] @ (digits ! (u mod b) # rest))"
      by (simp only: f append_assoc append_Cons append_Nil)
    also have "\<dots> = ParseUint_loop b ((2 ^ 64 - 1) div b + 1) maxVal (n * b ^ k + u div b)
          (digits ! (u mod b) # rest)"
      unfolding k_def by (rule less.IH [OF d q])
    also have "\<dots> = ParseUint_loop b ((2 ^ 64 - 1) div b + 1) maxVal
          ((n * b ^ k + u div b) * b + u mod b) rest"
      by (rule loop_step [OF assms(1,2) mb s assms(3)])
    finally show ?thesis by (simp only: e l)
  qed
qed

lemma ParseUint_formatBits:
  assumes "2 \<le> b" and "b \<le> 36" and "bitSize \<le> 64"
    and "bs = (if bitSize = 0 then IntSize else bitSize)" and "bs \<le> 64" and "u \<le> 2 ^ bs - 1"
  shows "ParseUint IntSize (formatBits b u []) b bitSize = (u, None)"
proof -
  have ne: "formatBits b u [] \<noteq> []" using formatBits_hd [OF assms(1,2)] by blast
  from assms(5) have "(2::nat) ^ bs \<le> 2 ^ 64" by (rule power_increasing) simp
  then have mv: "(2::nat) ^ bs - 1 < 2 ^ 64" by (simp add: less_imp_diff_less order_le_less_trans)
  have "ParseUint_loop b ((2 ^ 64 - 1) div b + 1) (2 ^ bs - 1) 0 (formatBits b u [] @ []) =
      ParseUint_loop b ((2 ^ 64 - 1) div b + 1) (2 ^ bs - 1)
        (0 * b ^ length (formatBits b u []) + u) []"
    by (rule loop_formatBits [OF assms(1,2) mv]) (use assms(6) in simp)
  then have "ParseUint_loop b ((2 ^ 64 - 1) div b + 1) (2 ^ bs - 1) 0 (formatBits b u []) = (u, None)"
    by simp
  with ne assms(1,2,3) show ?thesis
    unfolding ParseUint_def assms(4) [symmetric] Let_def by simp
qed

lemma unat_nonneg_64:
  assumes "0 \<le> sint (i :: 64 word)"
  shows "unat i = nat (sint i)"
proof -
  have "sint i < 2 ^ 64" using sint_lt [of i] by simp
  with assms have "take_bit 64 (sint i) = sint i" by (simp add: take_bit_int_eq_self)
  then have "uint i = sint i" using uint_sint [of i] by simp
  then show ?thesis by (simp add: unat_eq_nat_uint)
qed

lemma unat_neg_64:
  assumes "sint (i :: 64 word) < 0"
  shows "unat (- i) = nat (- sint i)"
proof -
  have b: "- sint i \<le> 2 ^ 63" using sint_ge [of i] by simp
  then have "- sint i < 2 ^ 64" by simp
  with assms have t: "take_bit 64 (- sint i) = - sint i" by (simp add: take_bit_int_eq_self)
  have "- i = word_of_int (- sint i)" by simp
  then have "uint (- i) = take_bit 64 (- sint i)"
    by (simp only: uint_word_of_int_eq) simp
  with t show ?thesis by (simp add: unat_eq_nat_uint)
qed

lemma pow_half_le: "1 \<le> bs \<Longrightarrow> (2::nat) ^ (bs - 1) \<le> 2 ^ bs - 1"
proof -
  assume "1 \<le> bs"
  then obtain k where k: "bs = Suc k" by (cases bs) simp_all
  have "(1::nat) \<le> 2 ^ k" by simp
  then show ?thesis unfolding k by simp
qed

lemma ParseInt_FormatInt:
  assumes b: "2 \<le> b" "b \<le> 36" and bits: "bitSize \<le> 64"
    and bs: "bs = (if bitSize = 0 then IntSize else bitSize)" "1 \<le> bs" "bs \<le> 64"
    and fits: "fits_int bs i"
  shows "ParseInt IntSize (FormatInt i b) b bitSize = (i, None)"
proof (cases "i <s 0")
  case True
  then have neg: "sint i < 0" by (simp add: word_sless_alt)
  define u where "u = unat (- i)"
  have u: "u = nat (- sint i)" unfolding u_def by (rule unat_neg_64 [OF neg])
  from fits have "- sint i \<le> 2 ^ (bs - 1)" by (simp add: fits_int_def)
  with u neg have le: "u \<le> 2 ^ (bs - 1)"
    by (metis nat_le_iff of_nat_numeral of_nat_power)
  with pow_half_le [OF bs(2)] have "u \<le> 2 ^ bs - 1" by simp
  then have p: "ParseUint IntSize (formatBits b u []) b bitSize = (u, None)"
    by (rule ParseUint_formatBits [OF b bits bs(1) bs(3)])
  have f: "FormatInt i b = CHR ''-'' # formatBits b u []"
    using True by (simp add: FormatInt_def u_def)
  have w: "- (word_of_nat u :: 64 word) = i" by (simp add: u_def)
  from le have c: "\<not> 2 ^ (bs - 1) < u" by simp
  show ?thesis
    unfolding ParseInt_def f Let_def bs(1) [symmetric]
    using c by (simp add: p w)
next
  case False
  then have pos: "0 \<le> sint i" by (simp add: word_sless_alt)
  define u where "u = unat i"
  have u: "u = nat (sint i)" unfolding u_def by (rule unat_nonneg_64 [OF pos])
  from fits have "sint i < 2 ^ (bs - 1)" by (simp add: fits_int_def)
  with u pos have lt: "u < 2 ^ (bs - 1)"
    by (metis nat_less_iff of_nat_numeral of_nat_power)
  with pow_half_le [OF bs(2)] have "u \<le> 2 ^ bs - 1" by simp
  then have p: "ParseUint IntSize (formatBits b u []) b bitSize = (u, None)"
    by (rule ParseUint_formatBits [OF b bits bs(1) bs(3)])
  have f: "FormatInt i b = formatBits b u []"
    using False by (simp add: FormatInt_def u_def)
  from formatBits_hd [OF b, of u] obtain d where ne: "formatBits b u [] \<noteq> []"
    and d: "d < 36" "hd (formatBits b u []) = digits ! d" by blast
  from digit_props [OF d(1)] d(2) have h: "hd (formatBits b u []) \<noteq> CHR ''-''"
    "hd (formatBits b u []) \<noteq> CHR ''+''" by simp_all
  have w: "(word_of_nat u :: 64 word) = i" by (simp add: u_def)
  from lt have c: "\<not> 2 ^ (bs - 1) \<le> u" by simp
  show ?thesis
    unfolding ParseInt_def f Let_def bs(1) [symmetric]
    using c by (simp add: p w ne h)
qed

lemma Split_none: "sep \<notin> set s \<Longrightarrow> Split s sep = [s]"
  by (simp only: Split.simps [of s sep] if_False)

lemma Split_first:
  assumes "sep \<notin> set a"
  shows "Split (a @ sep # rest) sep = a # Split rest sep"
proof -
  from assms have t: "takeWhile (\<lambda>c. c \<noteq> sep) (a @ sep # rest) = a"
    by (induction a) auto
  from assms have d: "dropWhile (\<lambda>c. c \<noteq> sep) (a @ sep # rest) = sep # rest"
    by (induction a) auto
  have i: "sep \<in> set (a @ sep # rest)" by simp
  show ?thesis
    by (simp only: Split.simps [of "a @ sep # rest" sep] i if_True t d list.sel)
qed

lemma Split_not_Nil: "Split s sep \<noteq> []"
  by (cases "sep \<in> set s") (simp_all only: Split.simps [of s sep] if_True if_False list.distinct not_False_eq_True)

lemma FormatInt_no_dot:
  assumes "2 \<le> b" and "b \<le> 36"
  shows "CHR ''.'' \<notin> set (FormatInt i b)"
proof -
  have "CHR ''.'' \<notin> set (formatBits b u [])" for u
  proof
    assume "CHR ''.'' \<in> set (formatBits b u [])"
    from formatBits_chars [OF assms this] obtain d where d: "d < 36" "CHR ''.'' = digits ! d"
      by (elim exE conjE)
    from digit_props(2) [OF d(1)] d(2) show False by (simp only:) simp
  qed
  then show ?thesis by (simp add: FormatInt_def)
qed

lemma m4s_no_dot: "CHR ''.'' \<notin> set ''m4s''"
  by simp

lemma Split_segmentName:
  "CHR ''.'' \<notin> set base \<Longrightarrow> Split (segmentName base) CHR ''.'' = [base, ''m4s'']"
  using Split_first [of "CHR ''.''" base "''m4s''"] Split_none [OF m4s_no_dot]
  by (simp add: segmentName_def)

lemma Split_partName:
  assumes "CHR ''.'' \<notin> set base"
  shows "Split (partName base part) CHR ''.'' = [base, FormatInt part 10, ''m4s'']"
proof -
  have p: "CHR ''.'' \<notin> set (FormatInt part 10)" by (rule FormatInt_no_dot) simp_all
  have "Split (partName base part) CHR ''.'' =
      base # Split (FormatInt part 10 @ CHR ''.'' # ''m4s'') CHR ''.''"
    using Split_first [OF assms, of "FormatInt part 10 @ CHR ''.'' # ''m4s''"]
    by (simp add: partName_def)
  also have "\<dots> = base # FormatInt part 10 # Split ''m4s'' CHR ''.''"
    by (simp only: Split_first [OF p])
  finally show ?thesis by (simp only: Split_none [OF m4s_no_dot])
qed

lemma fits_int_64: "fits_int 64 i"
  using sint_ge [of i] sint_lt [of i] by (simp add: fits_int_def)

lemma ParseName_segmentName:
  "ParseName IntSize (segmentName (FormatInt i 36)) = (i, - 1, True)"
proof -
  have s: "Split (segmentName (FormatInt i 36)) CHR ''.'' = [FormatInt i 36, ''m4s'']"
    by (rule Split_segmentName) (rule FormatInt_no_dot, simp_all)
  have p: "ParseInt IntSize (FormatInt i 36) 36 64 = (i, None)"
    by (rule ParseInt_FormatInt [where bs = 64]) (simp_all add: fits_int_64)
  show ?thesis by (simp add: ParseName_def s p)
qed

lemma ParseName_partName:
  assumes "1 \<le> IntSize" and "IntSize \<le> 64" and "fits_int IntSize part"
  shows "ParseName IntSize (partName (FormatInt i 36) part) = (i, part, True)"
proof -
  have s: "Split (partName (FormatInt i 36) part) CHR ''.'' =
      [FormatInt i 36, FormatInt part 10, ''m4s'']"
    by (rule Split_partName) (rule FormatInt_no_dot, simp_all)
  have p: "ParseInt IntSize (FormatInt i 36) 36 64 = (i, None)"
    by (rule ParseInt_FormatInt [where bs = 64]) (simp_all add: fits_int_64)
  have q: "ParseInt IntSize (FormatInt part 10) 10 0 = (part, None)"
    by (rule ParseInt_FormatInt [where bs = IntSize]) (use assms in simp_all)
  show ?thesis by (simp add: ParseName_def s p q)
qed

lemma ParseName_ok_iff:
  "snd (snd (ParseName IntSize name)) \<longleftrightarrow>
     (length (Split name CHR ''.'') = 2 \<or> length (Split name CHR ''.'') = 3) \<and>
     last (Split name CHR ''.'') = ''m4s'' \<and>
     snd (ParseInt IntSize (Split name CHR ''.'' ! 0) 36 64) = None \<and>
     (length (Split name CHR ''.'') = 3 \<longrightarrow>
        snd (ParseInt IntSize (Split name CHR ''.'' ! 1) 10 0) = None)"
proof -
  have l: "Split name CHR ''.'' ! (length (Split name CHR ''.'') - 1) = last (Split name CHR ''.'')"
    using Split_not_Nil [of name "CHR ''.''"] by (simp add: last_conv_nth)
  show ?thesis
    unfolding ParseName_def Let_def l
    by (auto split: prod.splits option.splits)
qed

lemma Split_examples:
  "Split ''3k.m4s'' CHR ''.'' = [''3k'', ''m4s'']"
  "Split ''3k.2.m4s'' CHR ''.'' = [''3k'', ''2'', ''m4s'']"
  "Split ''3k.mp4'' CHR ''.'' = [''3k'', ''mp4'']"
  "Split ''3k'' CHR ''.'' = [''3k'']"
  "Split ''a.b.c.m4s'' CHR ''.'' = [''a'', ''b'', ''c'', ''m4s'']"
  using Split_first [of "CHR ''.''" "''3k''" "''m4s''"]
    Split_first [of "CHR ''.''" "''3k''" "''2.m4s''"]
    Split_first [of "CHR ''.''" "''2''" "''m4s''"]
    Split_first [of "CHR ''.''" "''3k''" "''mp4''"]
    Split_first [of "CHR ''.''" "''a''" "''b.c.m4s''"]
    Split_first [of "CHR ''.''" "''b''" "''c.m4s''"]
    Split_first [of "CHR ''.''" "''c''" "''m4s''"]
    Split_none [of "CHR ''.''" "''m4s''"] Split_none [of "CHR ''.''" "''mp4''"]
    Split_none [of "CHR ''.''" "''3k''"]
  by simp_all

lemma ParseInt_examples:
  "ParseInt IntSize ''3k'' 36 64 = (128, None)"
  "snd (ParseInt IntSize ''a'' 36 64) = None"
  by (simp_all add: ParseInt_def ParseUint_def digitVal_def lower_def Let_def)

lemma FormatInt_examples:
  "FormatInt 128 36 = ''3k''" "FormatInt 2 10 = ''2''" "FormatInt 123 36 = ''3f''"
  "FormatInt 7 10 = ''7''"
  using formatBits_large [of 36 128] formatBits_large [of 36 123] formatBits_small [of 3 36]
    formatBits_small [of 2 10] formatBits_small [of 7 10]
  by (simp_all add: FormatInt_def digits_def word_sless_alt)

lemma fits_int_2: "IntSize = 32 \<or> IntSize = 64 \<Longrightarrow> fits_int IntSize 2"
  by (auto simp: fits_int_def)

text \<open>
  C8, as the code has it. \<open>ParseName\<close> inverts the names of \<open>New\<close> and \<open>Format\<close>: the
  name of a whole segment gives back the id, part \<open>-1\<close> and \<open>ok\<close>, for every id; the
  name of a part gives back the id and the part index, for every index that is an \<open>int\<close>
  of the platform (32 or 64 bits). \<open>3k\<close> is 128 in base 36 (123 is \<open>3f\<close>). \<open>ok\<close> is
  true exactly when the name splits at the dots into two or three pieces, the last one
  \<open>m4s\<close>, the first parses in base 36 as an \<open>int64\<close> and, when there are three, the
  second parses in base 10 as an \<open>int\<close>; so \<open>3k.mp4\<close>, \<open>3k\<close> and \<open>a.b.c.m4s\<close>
  give \<open>ok = false\<close>.
\<close>

theorem ParseName_inverts_names:
  "ParseName IntSize (segmentName (FormatInt i 36)) = (i, - 1, True) \<and>
   (IntSize = 32 \<or> IntSize = 64 \<longrightarrow> fits_int IntSize part \<longrightarrow>
      ParseName IntSize (partName (FormatInt i 36) part) = (i, part, True)) \<and>
   ParseName IntSize ''3k.m4s'' = (128, - 1, True) \<and>
   (IntSize = 32 \<or> IntSize = 64 \<longrightarrow> ParseName IntSize ''3k.2.m4s'' = (128, 2, True)) \<and>
   (snd (snd (ParseName IntSize name)) \<longleftrightarrow>
      (length (Split name CHR ''.'') = 2 \<or> length (Split name CHR ''.'') = 3) \<and>
      last (Split name CHR ''.'') = ''m4s'' \<and>
      snd (ParseInt IntSize (Split name CHR ''.'' ! 0) 36 64) = None \<and>
      (length (Split name CHR ''.'') = 3 \<longrightarrow>
         snd (ParseInt IntSize (Split name CHR ''.'' ! 1) 10 0) = None)) \<and>
   \<not> snd (snd (ParseName IntSize ''3k.mp4'')) \<and>
   \<not> snd (snd (ParseName IntSize ''3k'')) \<and>
   \<not> snd (snd (ParseName IntSize ''a.b.c.m4s''))"
proof (intro conjI impI)
  show "ParseName IntSize (segmentName (FormatInt i 36)) = (i, - 1, True)"
    by (rule ParseName_segmentName)
  show "ParseName IntSize (partName (FormatInt i 36) part) = (i, part, True)"
    if "IntSize = 32 \<or> IntSize = 64" "fits_int IntSize part"
    using that by (intro ParseName_partName) auto
  show "ParseName IntSize ''3k.m4s'' = (128, - 1, True)"
    using ParseName_segmentName [of IntSize 128]
    by (simp add: FormatInt_examples segmentName_def)
  show "ParseName IntSize ''3k.2.m4s'' = (128, 2, True)" if "IntSize = 32 \<or> IntSize = 64"
    using that ParseName_partName [of IntSize 2 128] fits_int_2 [OF that]
    by (auto simp: FormatInt_examples partName_def)
  show "snd (snd (ParseName IntSize name)) \<longleftrightarrow>
      (length (Split name CHR ''.'') = 2 \<or> length (Split name CHR ''.'') = 3) \<and>
      last (Split name CHR ''.'') = ''m4s'' \<and>
      snd (ParseInt IntSize (Split name CHR ''.'' ! 0) 36 64) = None \<and>
      (length (Split name CHR ''.'') = 3 \<longrightarrow>
         snd (ParseInt IntSize (Split name CHR ''.'' ! 1) 10 0) = None)"
    by (rule ParseName_ok_iff)
  show "\<not> snd (snd (ParseName IntSize ''3k.mp4''))"
    by (simp add: ParseName_ok_iff Split_examples)
  show "\<not> snd (snd (ParseName IntSize ''3k''))"
    by (simp add: ParseName_ok_iff Split_examples)
  show "\<not> snd (snd (ParseName IntSize ''a.b.c.m4s''))"
    by (simp add: ParseName_ok_iff Split_examples)
qed

theorem ParseName_inverts_names_witness:
  "fits_int 64 7 \<and>
   partName (FormatInt 123 36) 7 = ''3f.7.m4s'' \<and>
   ParseName 64 ''3f.7.m4s'' = (123, 7, True) \<and>
   segmentName (FormatInt 123 36) = ''3f.m4s'' \<and>
   ParseName 64 ''3f.m4s'' = (123, - 1, True) \<and>
   ParseName 64 ''3k.2.m4s'' = (128, 2, True) \<and>
   Split ''3k.mp4'' CHR ''.'' = [''3k'', ''mp4''] \<and>
   \<not> snd (snd (ParseName 64 ''3k.mp4''))"
  using ParseName_inverts_names [of 64 123 7 "''3k.mp4''"]
  by (simp add: fits_int_64 FormatInt_examples segmentName_def partName_def Split_examples)

text \<open>
  C8 as stated fails at its example: \<open>ParseName\<close> of \<open>3k.m4s\<close> gives the id 128, not
  123; the name of segment 123 is \<open>3f.m4s\<close>.
\<close>

theorem ParseName_3k_counterexample:
  "ParseName 64 ''3k.m4s'' = (128, - 1, True) \<and> FormatInt 123 36 = ''3f'' \<and>
   ParseName 64 ''3f.m4s'' = (123, - 1, True)"
  using ParseName_segmentName [of 64 128] ParseName_segmentName [of 64 123]
  by (simp add: FormatInt_examples segmentName_def)

lemma New_baseName:
  "New True i start0 dcn0 pt = Inr s \<Longrightarrow>
     ParseName IntSize (segmentName (baseName s)) = (id_seg s, - 1, True)"
  by (auto simp: New_def ParseName_segmentName)

section \<open>Segment: Append, Finalize and the total size\<close>

lemma New_example: "New True 123 0 False None = Inr example_segment"
  by (simp add: New_def example_segment_def FormatInt_examples)

lemma file_Write_ok:
  "file_Write oc fl b = (fl', None) \<Longrightarrow> \<exists>d. fl = Some d \<and> fl' = Some (d @ b)"
  by (cases "(oc, fl, b)" rule: file_Write.cases) auto

lemma file_Write_snd_ok:
  "snd (file_Write oc fl b) = None \<Longrightarrow> \<exists>d. fl = Some d \<and> fst (file_Write oc fl b) = Some (d @ b)"
  by (cases "(oc, fl, b)" rule: file_Write.cases) auto

lemma Append_trace_eq:
  "Append_trace oc s frag =
     [(Lock_mu, \<lparr> seg = s, mu_held = True, err_var = None \<rparr>),
      (Append_parts, \<lparr> seg = s\<lparr> parts := parts s @ [frag] \<rparr>, mu_held = True, err_var = None \<rparr>),
      (Add_size,
       \<lparr> seg = s\<lparr> parts := parts s @ [frag], size_seg := size_seg s + word_of_int (Length frag) \<rparr>,
         mu_held = True, err_var = None \<rparr>),
      (Unlock_mu,
       \<lparr> seg = s\<lparr> parts := parts s @ [frag], size_seg := size_seg s + word_of_int (Length frag) \<rparr>,
         mu_held = False, err_var = None \<rparr>),
      (Write_f,
       \<lparr> seg = s\<lparr> parts := parts s @ [frag], size_seg := size_seg s + word_of_int (Length frag),
                  f_seg := fst (file_Write oc (f_seg s) (bytes_of frag)) \<rparr>,
         mu_held = False, err_var = snd (file_Write oc (f_seg s) (bytes_of frag)) \<rparr>)]"
  by (simp add: Append_trace_def Append_body_def split: prod.splits)

lemma Append_eq:
  "Append oc s frag =
     (s\<lparr> parts := parts s @ [frag], size_seg := size_seg s + word_of_int (Length frag),
         f_seg := fst (file_Write oc (f_seg s) (bytes_of frag)) \<rparr>,
      snd (file_Write oc (f_seg s) (bytes_of frag)))"
  by (simp add: Append_def Append_trace_eq)

lemma Append_visible:
  "visible (Append_trace oc s frag) =
     [s\<lparr> parts := parts s @ [frag], size_seg := size_seg s + word_of_int (Length frag) \<rparr>,
      fst (Append oc s frag)]"
  by (simp add: visible_def Append_trace_eq Append_eq)

lemma Append_ok:
  assumes "Append oc s frag = (s', None)"
  shows "parts s' = parts s @ [frag]"
    and "size_seg s' = size_seg s + word_of_int (Length frag)"
    and "\<exists>d. f_seg s = Some d \<and> f_seg s' = Some (d @ bytes_of frag)"
  using assms
  using assms file_Write_snd_ok [of oc "f_seg s" "bytes_of frag"]
  by (auto simp: Append_eq)

lemma Append_ok_file:
  "snd (Append oc s frag) = None \<Longrightarrow>
     \<exists>d. f_seg s = Some d \<and> f_seg (fst (Append oc s frag)) = Some (d @ bytes_of frag)"
  using Append_ok(3) [of oc s frag "fst (Append oc s frag)"] by (simp add: prod_eq_iff)

text \<open>
  C1, as the code has it. \<open>Append\<close> runs its statements in the order lock, append to
  \<open>parts\<close>, add to \<open>size\<close>, unlock, write. So it makes the part visible first: the
  states that can be seen once the call has begun are two, the one left by the unlock,
  where the part is in \<open>parts\<close> and counted in \<open>size\<close> while the file is as it was
  before the call, and then the one left by the write, which is what the call leaves.
  The error of the write is what \<open>Append\<close> returns, and the part stays in \<open>parts\<close> and
  \<open>size\<close> whatever the write did. When \<open>Append\<close> returns no error the file holds the
  bytes of the part after what it held before.
\<close>

theorem Append_publishes_then_writes:
  "map fst (Append_trace oc s frag) = [Lock_mu, Append_parts, Add_size, Unlock_mu, Write_f] \<and>
   visible (Append_trace oc s frag) =
     [s\<lparr> parts := parts s @ [frag], size_seg := size_seg s + word_of_int (Length frag) \<rparr>,
      s\<lparr> parts := parts s @ [frag], size_seg := size_seg s + word_of_int (Length frag),
         f_seg := fst (file_Write oc (f_seg s) (bytes_of frag)) \<rparr>] \<and>
   parts (hd (visible (Append_trace oc s frag))) = parts s @ [frag] \<and>
   size_seg (hd (visible (Append_trace oc s frag))) = size_seg s + word_of_int (Length frag) \<and>
   f_seg (hd (visible (Append_trace oc s frag))) = f_seg s \<and>
   Append oc s frag =
     (last (visible (Append_trace oc s frag)), snd (file_Write oc (f_seg s) (bytes_of frag))) \<and>
   parts (fst (Append oc s frag)) = parts s @ [frag] \<and>
   size_seg (fst (Append oc s frag)) = size_seg s + word_of_int (Length frag) \<and>
   (snd (Append oc s frag) = None \<longrightarrow>
      (\<exists>d. f_seg s = Some d \<and> f_seg (fst (Append oc s frag)) = Some (d @ bytes_of frag)))"
proof -
  have t: "map fst (Append_trace oc s frag) = [Lock_mu, Append_parts, Add_size, Unlock_mu, Write_f]"
    by (simp add: Append_trace_eq)
  have v: "visible (Append_trace oc s frag) =
     [s\<lparr> parts := parts s @ [frag], size_seg := size_seg s + word_of_int (Length frag) \<rparr>,
      s\<lparr> parts := parts s @ [frag], size_seg := size_seg s + word_of_int (Length frag),
         f_seg := fst (file_Write oc (f_seg s) (bytes_of frag)) \<rparr>]"
    by (simp add: Append_visible Append_eq)
  have h: "parts (hd (visible (Append_trace oc s frag))) = parts s @ [frag]"
    "size_seg (hd (visible (Append_trace oc s frag))) = size_seg s + word_of_int (Length frag)"
    "f_seg (hd (visible (Append_trace oc s frag))) = f_seg s"
    unfolding v by simp_all
  have a: "Append oc s frag =
     (last (visible (Append_trace oc s frag)), snd (file_Write oc (f_seg s) (bytes_of frag)))"
    unfolding v by (simp add: Append_eq)
  have f: "parts (fst (Append oc s frag)) = parts s @ [frag]"
    "size_seg (fst (Append oc s frag)) = size_seg s + word_of_int (Length frag)"
    by (simp_all add: Append_eq)
  from t v h a f Append_ok_file [of oc s frag]
  show ?thesis by blast
qed

theorem Append_publishes_then_writes_witness:
  "snd (Append WriteOk example_segment example_fragment) = None \<and>
   visible (Append_trace WriteOk example_segment example_fragment) =
     [example_segment\<lparr> parts := [example_fragment], size_seg := 3 \<rparr>,
      example_segment\<lparr> parts := [example_fragment], size_seg := 3, f_seg := Some [1, 2, 3] \<rparr>] \<and>
   parts (fst (Append WriteOk example_segment example_fragment)) = [example_fragment] \<and>
   size_seg (fst (Append WriteOk example_segment example_fragment)) = 3 \<and>
   f_seg (fst (Append WriteOk example_segment example_fragment)) = Some [1, 2, 3]"
  using Append_publishes_then_writes [of WriteOk example_segment example_fragment]
  by (simp add: example_segment_def example_fragment_def bytes_of_def)

text \<open>
  C1 as stated fails. A write that fails at once makes \<open>Append\<close> return an error, and
  the part is in \<open>parts\<close> and in \<open>size\<close> all the same, with nothing of it in the file.
  And in a call that returns no error the part is visible before its bytes are written:
  in the state left by the unlock the part is in \<open>parts\<close> and the file is empty.
\<close>

theorem Append_error_counterexample:
  "snd (Append (WriteFails 0) example_segment example_fragment) = Some ErrWrite \<and>
   parts (fst (Append (WriteFails 0) example_segment example_fragment)) \<noteq> parts example_segment \<and>
   size_seg (fst (Append (WriteFails 0) example_segment example_fragment)) \<noteq> size_seg example_segment \<and>
   f_seg (fst (Append (WriteFails 0) example_segment example_fragment)) = Some [] \<and>
   snd (Append WriteOk example_segment example_fragment) = None \<and>
   map fst (Append_trace WriteOk example_segment example_fragment) =
     [Lock_mu, Append_parts, Add_size, Unlock_mu, Write_f] \<and>
   map (\<lambda>(c, fr). (mu_held fr, parts (seg fr), size_seg (seg fr), f_seg (seg fr)))
     (Append_trace WriteOk example_segment example_fragment) =
     [(True, [], 0, Some []),
      (True, [example_fragment], 0, Some []),
      (True, [example_fragment], 3, Some []),
      (False, [example_fragment], 3, Some []),
      (False, [example_fragment], 3, Some [1, 2, 3])]"
  by (simp add: Append_def Append_trace_def Append_body_def example_segment_def
        example_fragment_def bytes_of_def)

lemma Finalize_fields:
  "size_seg (Finalize n s) = size_seg s"
  "f_seg (Finalize n s) = f_seg s"
  "map Length (parts (Finalize n s)) = map Length (parts s)"
  "map Independent (parts (Finalize n s)) = map Independent (parts s)"
  "map RawFragment.Duration (parts (Finalize n s)) = map RawFragment.Duration (parts s)"
  "map Bytes (parts (Finalize n s)) = replicate (length (parts s)) None"
  by (simp_all add: Finalize_def comp_def map_replicate_const)

lemma run_calls_size:
  "run_calls cs s0 = Some s \<Longrightarrow>
     size_seg s = size_seg s0 + word_of_int (sum_list (map Length (appended cs)))"
proof (induction cs arbitrary: s0)
  case Nil
  then show ?case by simp
next
  case (Cons c cs)
  show ?case
  proof (cases c)
    case (CallAppend oc frag)
    with Cons.prems obtain s1 where a: "Append oc s0 frag = (s1, None)"
      and r: "run_calls cs s1 = Some s"
      by (auto split: prod.splits option.splits)
    from Cons.IH [OF r] Append_ok(2) [OF a] show ?thesis
      by (simp add: CallAppend)
  next
    case (CallFinalize n)
    with Cons.prems have "run_calls cs (Finalize n s0) = Some s" by simp
    from Cons.IH [OF this] show ?thesis
      by (simp add: CallFinalize Finalize_fields)
  qed
qed

lemma run_calls_lengths:
  "run_calls cs s0 = Some s \<Longrightarrow>
     map Length (parts s) = map Length (parts s0) @ map Length (appended cs)"
proof (induction cs arbitrary: s0)
  case Nil
  then show ?case by simp
next
  case (Cons c cs)
  show ?case
  proof (cases c)
    case (CallAppend oc frag)
    with Cons.prems obtain s1 where a: "Append oc s0 frag = (s1, None)"
      and r: "run_calls cs s1 = Some s"
      by (auto split: prod.splits option.splits)
    from Cons.IH [OF r] Append_ok(1) [OF a] show ?thesis
      by (simp add: CallAppend)
  next
    case (CallFinalize n)
    with Cons.prems have "run_calls cs (Finalize n s0) = Some s" by simp
    from Cons.IH [OF this] show ?thesis
      by (simp add: CallFinalize Finalize_fields)
  qed
qed

lemma run_calls_stored:
  "run_calls cs s0 = Some s \<Longrightarrow> f_seg s0 \<noteq> None \<Longrightarrow>
     f_seg s \<noteq> None \<and>
     stored s = stored s0 + sum_list (map (\<lambda>frag. length (bytes_of frag)) (appended cs))"
proof (induction cs arbitrary: s0)
  case Nil
  then show ?case by simp
next
  case (Cons c cs)
  show ?case
  proof (cases c)
    case (CallAppend oc frag)
    with Cons.prems obtain s1 where a: "Append oc s0 frag = (s1, None)"
      and r: "run_calls cs s1 = Some s"
      by (auto split: prod.splits option.splits)
    from Append_ok(3) [OF a] obtain d
      where d: "f_seg s0 = Some d" "f_seg s1 = Some (d @ bytes_of frag)"
      by blast
    then have "f_seg s1 \<noteq> None" by simp
    from Cons.IH [OF r this] d show ?thesis
      by (simp add: CallAppend stored_def)
  next
    case (CallFinalize n)
    with Cons.prems have r: "run_calls cs (Finalize n s0) = Some s" by simp
    from Cons.prems have "f_seg (Finalize n s0) \<noteq> None" by (simp add: Finalize_fields)
    from Cons.IH [OF r this] show ?thesis
      by (simp add: CallFinalize Finalize_fields stored_def)
  qed
qed

lemma matching_lengths:
  "list_all length_matches frags \<Longrightarrow>
     sum_list (map Length frags) = int (sum_list (map (\<lambda>frag. length (bytes_of frag)) frags))"
  by (induction frags) (simp_all add: length_matches_def)

lemma sint_of_nat_64: "n < 2 ^ 63 \<Longrightarrow> sint (word_of_nat n :: 64 word) = int n"
  by (simp add: signed_of_nat signed_take_bit_int_eq_self)

text \<open>
  C7. A segment made by \<open>New\<close>, after any calls of \<open>Append\<close> that returned no error and
  of \<open>Finalize\<close>: \<open>size\<close> is the sum of the recorded lengths of the parts, in the 64-bit
  arithmetic of \<open>size\<close>, and the parts are the appended fragments in order. When the
  \<open>Length\<close> of each appended fragment is the length of its \<open>Bytes\<close>, that sum is the
  number of bytes in the file, and \<open>size\<close> read as an \<open>int64\<close> is that number (a file
  holds fewer than \<open>2 ^ 63\<close> bytes). \<open>Finalize\<close> keeps \<open>size\<close>, the file and every
  part's length, and leaves every part's \<open>Bytes\<close> \<open>nil\<close>.
\<close>

theorem totalSize_invariant:
  assumes "New True id0 start0 dcn0 pt = Inr s0" and "run_calls cs s0 = Some s"
  shows "size_seg s = word_of_int (sum_list (map Length (parts s))) \<and>
         map Length (parts s) = map Length (appended cs) \<and>
         (list_all length_matches (appended cs) \<longrightarrow>
            f_seg s \<noteq> None \<and> sum_list (map Length (parts s)) = int (stored s) \<and>
            size_seg s = word_of_nat (stored s) \<and>
            (stored s < 2 ^ 63 \<longrightarrow> sint (size_seg s) = int (stored s))) \<and>
         size_seg (Finalize n s) = size_seg s \<and>
         f_seg (Finalize n s) = f_seg s \<and>
         map Length (parts (Finalize n s)) = map Length (parts s) \<and>
         map Independent (parts (Finalize n s)) = map Independent (parts s) \<and>
         map RawFragment.Duration (parts (Finalize n s)) = map RawFragment.Duration (parts s) \<and>
         map Bytes (parts (Finalize n s)) = replicate (length (parts s)) None"
proof -
  from assms(1) have s0: "parts s0 = []" "size_seg s0 = 0" "f_seg s0 = Some []"
    by (auto simp: New_def split: if_splits)
  have len: "map Length (parts s) = map Length (appended cs)"
    using run_calls_lengths [OF assms(2)] s0 by simp
  have sz: "size_seg s = word_of_int (sum_list (map Length (parts s)))"
    using run_calls_size [OF assms(2)] s0 len by simp
  have st: "f_seg s \<noteq> None"
    "stored s = sum_list (map (\<lambda>frag. length (bytes_of frag)) (appended cs))"
    using run_calls_stored [OF assms(2)] s0 by (simp_all add: stored_def)
  have m: "sum_list (map Length (parts s)) = int (stored s)"
    if "list_all length_matches (appended cs)"
    using matching_lengths [OF that] len st by simp
  have w: "size_seg s = word_of_nat (stored s)" if "list_all length_matches (appended cs)"
    using sz m [OF that] by simp
  have i: "sint (size_seg s) = int (stored s)"
    if "list_all length_matches (appended cs)" "stored s < 2 ^ 63"
    using w [OF that(1)] sint_of_nat_64 [OF that(2)] by simp
  show ?thesis
    using len sz st(1) m w i by (simp add: Finalize_fields)
qed

lemma run_example_calls: "run_calls example_calls example_segment = Some example_final"
  by (simp add: example_calls_def example_segment_def example_final_def example_fragment_def
      Append_eq bytes_of_def Finalize_def word_sless_alt)

theorem totalSize_invariant_witness:
  "New True 123 0 False None = Inr example_segment \<and>
   run_calls example_calls example_segment = Some example_final \<and>
   list_all length_matches (appended example_calls) \<and>
   stored example_final < 2 ^ 63 \<and>
   size_seg example_final = 6 \<and>
   sum_list (map Length (parts example_final)) = 6 \<and>
   stored example_final = 6 \<and>
   sint (size_seg example_final) = 6"
  using totalSize_invariant [OF New_example run_example_calls, of 0]
  by (simp add: New_example run_example_calls)
     (simp add: example_calls_def example_final_def example_fragment_def example_segment_def
        length_matches_def bytes_of_def stored_def)

section \<open>makeFragment\<close>

subsection \<open>The loop over the pending packets\<close>

lemma add_cts_fields:
  "snd (add_cts K REL sc pkt (track, e)) =
     (if CompositionTime pkt \<noteq> 0 then e\<lparr> CTS := REL (CompositionTime pkt) sc \<rparr> else e)"
  "TrackFrag.Header (fst (add_cts K REL sc pkt (track, e))) = TrackFrag.Header track"
  "DecodeTime (fst (add_cts K REL sc pkt (track, e))) = DecodeTime track"
  "Entries (Run (fst (add_cts K REL sc pkt (track, e)))) = Entries (Run track)"
  "FirstSampleFlags (Run (fst (add_cts K REL sc pkt (track, e)))) = FirstSampleFlags (Run track)"
  "DataOffset (Run (fst (add_cts K REL sc pkt (track, e)))) = DataOffset (Run track)"
  "TrackFragRun.Flags (Run (fst (add_cts K REL sc pkt (track, e)))) =
     (if CompositionTime pkt \<noteq> 0 then TrackFragRun.Flags (Run track) OR TrackRunSampleCTS K
      else TrackFragRun.Flags (Run track))"
  by (simp_all add: add_cts_def Let_def)

lemma seed_defaults_fields:
  "DecodeTime (seed_defaults i e track) = DecodeTime track"
  "Entries (Run (seed_defaults i e track)) = Entries (Run track)"
  "DataOffset (Run (seed_defaults i e track)) = DataOffset (Run track)"
  "TrackFragRun.Flags (Run (seed_defaults i e track)) = TrackFragRun.Flags (Run track)"
  "FirstSampleFlags (Run (seed_defaults i e track)) =
     (if i = 0 then TrackFragRunEntry.Flags e else FirstSampleFlags (Run track))"
  "TrackFragHeader.Flags (TrackFrag.Header (seed_defaults i e track)) =
     TrackFragHeader.Flags (TrackFrag.Header track)"
  "TrackID (TrackFrag.Header (seed_defaults i e track)) = TrackID (TrackFrag.Header track)"
  "DefaultSize (TrackFrag.Header (seed_defaults i e track)) =
     (if i = 0 then Size e
      else if Size e \<noteq> DefaultSize (TrackFrag.Header track) then 0
      else DefaultSize (TrackFrag.Header track))"
  "DefaultDuration (TrackFrag.Header (seed_defaults i e track)) =
     (if i = 0 then TrackFragRunEntry.Duration e
      else if TrackFragRunEntry.Duration e \<noteq> DefaultDuration (TrackFrag.Header track) then 0
      else DefaultDuration (TrackFrag.Header track))"
  "DefaultFlags (TrackFrag.Header (seed_defaults i e track)) =
     (if i = 0 \<or> i = 1 then TrackFragRunEntry.Flags e
      else if TrackFragRunEntry.Flags e \<noteq> DefaultFlags (TrackFrag.Header track) then 0
      else DefaultFlags (TrackFrag.Header track))"
  by (simp_all add: seed_defaults_def)

text \<open>The state of the loop: the track, then the decode time reached.\<close>

lemma sample_step_fields:
  fixes K TS REL f dflt i st0
  defines "st \<equiv> sample_step K TS REL f dflt i st0"
  defines "e \<equiv> new_entry K dflt (pending f ! i) (snd st0) (TS (Packet.Time (pending f ! (i + 1))) (timeScale f))"
  shows "snd st = TS (Packet.Time (pending f ! (i + 1))) (timeScale f)"
    and "Entries (Run (fst st)) = (Entries (Run (fst st0)))
           [i := (if CompositionTime (pending f ! i) \<noteq> 0
                  then e\<lparr> CTS := REL (CompositionTime (pending f ! i)) (timeScale f) \<rparr> else e)]"
    and "TrackFrag.Header (fst st) = TrackFrag.Header (seed_defaults i e (fst st0))"
    and "DecodeTime (fst st) = DecodeTime (fst st0)"
    and "DataOffset (Run (fst st)) = DataOffset (Run (fst st0))"
    and "FirstSampleFlags (Run (fst st)) =
           (if i = 0 then TrackFragRunEntry.Flags e else FirstSampleFlags (Run (fst st0)))"
    and "TrackFragRun.Flags (Run (fst st)) =
           (if CompositionTime (pending f ! i) \<noteq> 0
            then TrackFragRun.Flags (Run (fst st0)) OR TrackRunSampleCTS K
            else TrackFragRun.Flags (Run (fst st0)))"
  unfolding st_def e_def sample_step_def Let_def
  by (cases st0; simp add: split_beta add_cts_fields seed_defaults_fields)+

lemma loop_state_0:
  "loop_state K TS REL f 0 =
     (init_track K f (TS (Packet.Time (pending f ! 0)) (timeScale f)) (length (pending f) - 1),
      TS (Packet.Time (pending f ! 0)) (timeScale f))"
  by (simp add: loop_state_def)

lemma loop_state_Suc:
  "loop_state K TS REL f (Suc m) =
     sample_step K TS REL f (default_flags K f) m (loop_state K TS REL f m)"
  by (simp add: loop_state_def)

lemma loop_curDTS: "snd (loop_state K TS REL f m) = TS (Packet.Time (pending f ! m)) (timeScale f)"
  by (cases m) (simp_all add: loop_state_0 loop_state_Suc sample_step_fields)

lemma loop_entry:
  "(if CompositionTime (pending f ! m) \<noteq> 0
    then (new_entry K (default_flags K f) (pending f ! m) (snd (loop_state K TS REL f m))
            (TS (Packet.Time (pending f ! (m + 1))) (timeScale f)))
           \<lparr> CTS := REL (CompositionTime (pending f ! m)) (timeScale f) \<rparr>
    else new_entry K (default_flags K f) (pending f ! m) (snd (loop_state K TS REL f m))
           (TS (Packet.Time (pending f ! (m + 1))) (timeScale f))) = entry_at K TS REL f m"
  by (simp add: entry_at_def Let_def loop_curDTS)

lemma update_after_prefix:
  "0 < k \<Longrightarrow> (xs @ replicate k z)[length xs := v] = (xs @ [v]) @ replicate (k - 1) z"
  by (cases k) (simp_all add: list_update_append)

lemma loop_Entries:
  "m \<le> length (pending f) - 1 \<Longrightarrow>
     Entries (Run (fst (loop_state K TS REL f m))) =
       map (entry_at K TS REL f) [0..<m] @
       replicate (length (pending f) - 1 - m)
         \<lparr> TrackFragRunEntry.Duration = 0, Size = 0, TrackFragRunEntry.Flags = 0, CTS = 0 \<rparr>"
proof (induction m)
  case 0
  then show ?case by (simp add: loop_state_0 init_track_def)
next
  case (Suc m)
  then have IH: "Entries (Run (fst (loop_state K TS REL f m))) =
       map (entry_at K TS REL f) [0..<m] @
       replicate (length (pending f) - 1 - m)
         \<lparr> TrackFragRunEntry.Duration = 0, Size = 0, TrackFragRunEntry.Flags = 0, CTS = 0 \<rparr>"
    and k: "0 < length (pending f) - 1 - m"
    by simp_all
  have "Entries (Run (fst (loop_state K TS REL f (Suc m)))) =
          (Entries (Run (fst (loop_state K TS REL f m))))[m := entry_at K TS REL f m]"
    by (simp add: loop_state_Suc sample_step_fields loop_entry del: One_nat_def)
  also have "\<dots> = (map (entry_at K TS REL f) [0..<m] @ [entry_at K TS REL f m]) @
       replicate (length (pending f) - 1 - m - 1)
         \<lparr> TrackFragRunEntry.Duration = 0, Size = 0, TrackFragRunEntry.Flags = 0, CTS = 0 \<rparr>"
    using update_after_prefix [OF k, of "map (entry_at K TS REL f) [0..<m]"] IH by simp
  finally show ?case by simp
qed

lemma loop_Header_Flags:
  "TrackFragHeader.Flags (TrackFrag.Header (fst (loop_state K TS REL f m))) = TrackFragDefaultBaseIsMOOF K"
  by (induction m) (simp_all add: loop_state_0 loop_state_Suc sample_step_fields seed_defaults_fields init_track_def)

lemma loop_TrackID:
  "TrackID (TrackFrag.Header (fst (loop_state K TS REL f m))) = trackID f"
  by (induction m) (simp_all add: loop_state_0 loop_state_Suc sample_step_fields seed_defaults_fields init_track_def)

lemma loop_DecodeTime:
  "DecodeTime (fst (loop_state K TS REL f m)) =
     \<lparr> TrackFragDecodeTime.Version = 1,
       TrackFragDecodeTime.Time = TS (Packet.Time (pending f ! 0)) (timeScale f) \<rparr>"
  by (induction m) (simp_all add: loop_state_0 loop_state_Suc sample_step_fields init_track_def)

lemma new_entry_fields:
  "Size (new_entry K d pkt cur nxt) = word_of_nat (length (Data pkt))"
  "TrackFragRunEntry.Duration (new_entry K d pkt cur nxt) = ucast (nxt - cur)"
  "TrackFragRunEntry.Flags (new_entry K d pkt cur nxt) =
     (if IsKeyFrame pkt then SampleNoDependencies K else d)"
  by (simp_all add: new_entry_def)

lemma entry_at_fields:
  "Size (entry_at K TS REL f i) = word_of_nat (length (Data (pending f ! i)))"
  "TrackFragRunEntry.Duration (entry_at K TS REL f i) =
     ucast (TS (Packet.Time (pending f ! (i + 1))) (timeScale f) - TS (Packet.Time (pending f ! i)) (timeScale f))"
  "TrackFragRunEntry.Flags (entry_at K TS REL f i) =
     (if IsKeyFrame (pending f ! i) then SampleNoDependencies K else default_flags K f)"
  by (simp_all add: entry_at_def new_entry_def Let_def)

lemma loop_FirstSampleFlags:
  "FirstSampleFlags (Run (fst (loop_state K TS REL f m))) =
     (if m = 0 then 0 else TrackFragRunEntry.Flags (entry_at K TS REL f 0))"
proof (induction m)
  case 0
  show ?case by (simp add: loop_state_0 init_track_def)
next
  case (Suc m)
  show ?case
    by (simp only: loop_state_Suc sample_step_fields new_entry_fields entry_at_fields Suc.IH)
       simp
qed

lemma loop_Header_step:
  "DefaultSize (TrackFrag.Header (fst (loop_state K TS REL f (Suc m)))) =
     (if m = 0 then Size (entry_at K TS REL f 0)
      else if Size (entry_at K TS REL f m) \<noteq> DefaultSize (TrackFrag.Header (fst (loop_state K TS REL f m)))
      then 0 else DefaultSize (TrackFrag.Header (fst (loop_state K TS REL f m))))"
  "DefaultDuration (TrackFrag.Header (fst (loop_state K TS REL f (Suc m)))) =
     (if m = 0 then TrackFragRunEntry.Duration (entry_at K TS REL f 0)
      else if TrackFragRunEntry.Duration (entry_at K TS REL f m) \<noteq>
              DefaultDuration (TrackFrag.Header (fst (loop_state K TS REL f m)))
      then 0 else DefaultDuration (TrackFrag.Header (fst (loop_state K TS REL f m))))"
  "DefaultFlags (TrackFrag.Header (fst (loop_state K TS REL f (Suc m)))) =
     (if m = 0 \<or> m = 1 then TrackFragRunEntry.Flags (entry_at K TS REL f m)
      else if TrackFragRunEntry.Flags (entry_at K TS REL f m) \<noteq>
              DefaultFlags (TrackFrag.Header (fst (loop_state K TS REL f m)))
      then 0 else DefaultFlags (TrackFrag.Header (fst (loop_state K TS REL f m))))"
  by (simp_all only: loop_state_Suc sample_step_fields seed_defaults_fields new_entry_fields
        entry_at_fields loop_curDTS)
     simp_all

lemma sentinel_step:
  "(if v \<noteq> (if A then s else 0) then 0 else (if A then s else 0)) =
     (if v = s \<and> A then s else (0::uint32))"
  by (cases A) simp_all

lemma loop_DefaultSize:
  "DefaultSize (TrackFrag.Header (fst (loop_state K TS REL f m))) =
     (if m = 0 then 0
      else if \<forall>i<m. Size (entry_at K TS REL f i) = Size (entry_at K TS REL f 0)
      then Size (entry_at K TS REL f 0) else 0)"
proof (induction m)
  case 0
  show ?case by (simp add: loop_state_0 init_track_def)
next
  case (Suc m)
  show ?case
  proof (cases "m = 0")
    case True
    then show ?thesis unfolding loop_Header_step(1) by simp
  next
    case False
    then show ?thesis
      unfolding loop_Header_step(1) Suc.IH All_less_Suc
      by (simp only: if_False sentinel_step nat.simps if_True)
  qed
qed

lemma loop_DefaultDuration:
  "DefaultDuration (TrackFrag.Header (fst (loop_state K TS REL f m))) =
     (if m = 0 then 0
      else if \<forall>i<m. TrackFragRunEntry.Duration (entry_at K TS REL f i) =
                      TrackFragRunEntry.Duration (entry_at K TS REL f 0)
      then TrackFragRunEntry.Duration (entry_at K TS REL f 0) else 0)"
proof (induction m)
  case 0
  show ?case by (simp add: loop_state_0 init_track_def)
next
  case (Suc m)
  show ?case
  proof (cases "m = 0")
    case True
    then show ?thesis unfolding loop_Header_step(2) by simp
  next
    case False
    then show ?thesis
      unfolding loop_Header_step(2) Suc.IH All_less_Suc
      by (simp only: if_False sentinel_step nat.simps if_True)
  qed
qed

lemma loop_DefaultFlags:
  "2 \<le> m \<Longrightarrow>
   DefaultFlags (TrackFrag.Header (fst (loop_state K TS REL f m))) =
     (if \<forall>i<m. 1 \<le> i \<longrightarrow> TrackFragRunEntry.Flags (entry_at K TS REL f i) =
                      TrackFragRunEntry.Flags (entry_at K TS REL f 1)
      then TrackFragRunEntry.Flags (entry_at K TS REL f 1) else 0)"
proof (induction m)
  case 0
  then show ?case by simp
next
  case (Suc m)
  show ?case
  proof (cases "m = 1")
    case True
    then show ?thesis
      unfolding loop_Header_step(3) by (simp add: All_less_Suc)
  next
    case False
    with Suc.prems have m: "2 \<le> m" "1 \<le> m" "m \<noteq> 0" by simp_all
    show ?thesis
      unfolding loop_Header_step(3) Suc.IH [OF m(1)] All_less_Suc
      using False m by (simp only: if_False sentinel_step simp_thms if_True)
  qed
qed

lemma loop_DefaultFlags_1:
  "DefaultFlags (TrackFrag.Header (fst (loop_state K TS REL f (Suc 0)))) =
     TrackFragRunEntry.Flags (entry_at K TS REL f 0)"
  unfolding loop_Header_step(3) by simp

lemma loop_Run_Flags:
  "TrackFragRun.Flags (Run (fst (loop_state K TS REL f m))) =
     (if \<exists>i<m. CompositionTime (pending f ! i) \<noteq> 0
      then TrackRunDataOffset K OR TrackRunSampleCTS K else TrackRunDataOffset K)"
proof (induction m)
  case 0
  show ?case by (simp add: loop_state_0 init_track_def)
next
  case (Suc m)
  show ?case
    unfolding loop_state_Suc sample_step_fields Suc.IH Ex_less_Suc
    by (auto simp: or.assoc)
qed

subsection \<open>The flags set after the loop\<close>

lemma final_track_kept:
  "Entries (Run (final_track K TS REL f)) =
     Entries (Run (fst (loop_state K TS REL f (length (pending f) - 1))))"
  "FirstSampleFlags (Run (final_track K TS REL f)) =
     FirstSampleFlags (Run (fst (loop_state K TS REL f (length (pending f) - 1))))"
  "DecodeTime (final_track K TS REL f) =
     DecodeTime (fst (loop_state K TS REL f (length (pending f) - 1)))"
  "TrackID (TrackFrag.Header (final_track K TS REL f)) =
     TrackID (TrackFrag.Header (fst (loop_state K TS REL f (length (pending f) - 1))))"
  "DefaultSize (TrackFrag.Header (final_track K TS REL f)) =
     DefaultSize (TrackFrag.Header (fst (loop_state K TS REL f (length (pending f) - 1))))"
  "DefaultDuration (TrackFrag.Header (final_track K TS REL f)) =
     DefaultDuration (TrackFrag.Header (fst (loop_state K TS REL f (length (pending f) - 1))))"
  "DefaultFlags (TrackFrag.Header (final_track K TS REL f)) =
     DefaultFlags (TrackFrag.Header (fst (loop_state K TS REL f (length (pending f) - 1))))"
  by (simp_all add: final_track_def finish_flags_def finish_duration_def finish_size_def Let_def)

lemma final_track_Header_Flags:
  "TrackFragHeader.Flags (TrackFrag.Header (final_track K TS REL f)) =
     TrackFragDefaultBaseIsMOOF K
       OR (if DefaultSize (TrackFrag.Header (final_track K TS REL f)) \<noteq> 0
           then TrackFragDefaultSize K else 0)
       OR (if DefaultDuration (TrackFrag.Header (final_track K TS REL f)) \<noteq> 0
           then TrackFragDefaultDuration K else 0)
       OR (if DefaultFlags (TrackFrag.Header (final_track K TS REL f)) \<noteq> 0
           then TrackFragDefaultFlags K else 0)"
  unfolding final_track_kept
  by (simp add: final_track_def finish_flags_def finish_duration_def finish_size_def Let_def
        loop_Header_Flags or.assoc)

lemma final_track_Run_Flags:
  "TrackFragRun.Flags (Run (final_track K TS REL f)) =
     TrackFragRun.Flags (Run (fst (loop_state K TS REL f (length (pending f) - 1))))
       OR (if DefaultSize (TrackFrag.Header (final_track K TS REL f)) \<noteq> 0
           then 0 else TrackRunSampleSize K)
       OR (if DefaultDuration (TrackFrag.Header (final_track K TS REL f)) \<noteq> 0
           then 0 else TrackRunSampleDuration K)
       OR (if DefaultFlags (TrackFrag.Header (final_track K TS REL f)) \<noteq> 0
           then (if FirstSampleFlags (Run (final_track K TS REL f)) \<noteq>
                    DefaultFlags (TrackFrag.Header (final_track K TS REL f))
                 then TrackRunFirstSampleFlags K else 0)
           else TrackRunSampleFlags K)"
  unfolding final_track_kept
  by (simp add: final_track_def finish_flags_def finish_duration_def finish_size_def Let_def
        or.assoc)

lemma makeFragment_few:
  "length (pending f) < 2 \<Longrightarrow>
     makeFragment K TS REL f = (\<lparr> trackFrag = None, packets = [] \<rparr>, f)"
  by (simp add: makeFragment_def)

lemma makeFragment_some:
  "2 \<le> length (pending f) \<Longrightarrow>
     makeFragment K TS REL f =
       (\<lparr> trackFrag = Some (final_track K TS REL f),
          packets = take (length (pending f) - 1) (pending f) \<rparr>,
        f\<lparr> pending := [pending f ! (length (pending f) - 1)] \<rparr>)"
  by (simp add: makeFragment_def Let_def final_track_def loop_state_def)

lemma final_Entries:
  "Entries (Run (final_track K TS REL f)) =
     map (entry_at K TS REL f) [0..<length (pending f) - 1]"
  by (simp add: final_track_kept loop_Entries)

text \<open>Reading flags.\<close>

lemma flag_set_simps:
  "flag_set (a OR b) c \<longleftrightarrow> flag_set a c \<or> flag_set b c"
  "flag_set 0 c \<longleftrightarrow> False"
  "flag_set c c \<longleftrightarrow> c \<noteq> 0"
  by (simp_all add: flag_set_def word_ao_dist or_eq_0_iff)

lemma flag_set_other: "d AND c = 0 \<Longrightarrow> \<not> flag_set d c" "c AND d = 0 \<Longrightarrow> \<not> flag_set d c"
  by (simp_all add: flag_set_def and.commute)

lemma flags_ok_header:
  assumes "flags_ok K"
  shows "TrackFragDefaultSize K \<noteq> 0"
    "TrackFragDefaultDuration K \<noteq> 0"
    "TrackFragDefaultFlags K \<noteq> 0"
    "\<not> flag_set (TrackFragDefaultBaseIsMOOF K) (TrackFragDefaultSize K)"
    "\<not> flag_set (TrackFragDefaultBaseIsMOOF K) (TrackFragDefaultDuration K)"
    "\<not> flag_set (TrackFragDefaultBaseIsMOOF K) (TrackFragDefaultFlags K)"
    "\<not> flag_set (TrackFragDefaultDuration K) (TrackFragDefaultSize K)"
    "\<not> flag_set (TrackFragDefaultFlags K) (TrackFragDefaultSize K)"
    "\<not> flag_set (TrackFragDefaultSize K) (TrackFragDefaultDuration K)"
    "\<not> flag_set (TrackFragDefaultFlags K) (TrackFragDefaultDuration K)"
    "\<not> flag_set (TrackFragDefaultSize K) (TrackFragDefaultFlags K)"
    "\<not> flag_set (TrackFragDefaultDuration K) (TrackFragDefaultFlags K)"
  using assms by (simp_all add: flags_ok_def flag_set_def and.commute)

lemma flags_ok_run:
  assumes "flags_ok K"
  shows "TrackRunSampleSize K \<noteq> 0"
    "TrackRunSampleDuration K \<noteq> 0"
    "TrackRunSampleFlags K \<noteq> 0"
    "TrackRunFirstSampleFlags K \<noteq> 0"
    "\<not> flag_set (TrackRunDataOffset K) (TrackRunSampleSize K)"
    "\<not> flag_set (TrackRunDataOffset K) (TrackRunSampleDuration K)"
    "\<not> flag_set (TrackRunDataOffset K) (TrackRunSampleFlags K)"
    "\<not> flag_set (TrackRunDataOffset K) (TrackRunFirstSampleFlags K)"
    "\<not> flag_set (TrackRunSampleCTS K) (TrackRunSampleSize K)"
    "\<not> flag_set (TrackRunSampleCTS K) (TrackRunSampleDuration K)"
    "\<not> flag_set (TrackRunSampleCTS K) (TrackRunSampleFlags K)"
    "\<not> flag_set (TrackRunSampleCTS K) (TrackRunFirstSampleFlags K)"
    "\<not> flag_set (TrackRunSampleDuration K) (TrackRunSampleSize K)"
    "\<not> flag_set (TrackRunSampleFlags K) (TrackRunSampleSize K)"
    "\<not> flag_set (TrackRunFirstSampleFlags K) (TrackRunSampleSize K)"
    "\<not> flag_set (TrackRunSampleSize K) (TrackRunSampleDuration K)"
    "\<not> flag_set (TrackRunSampleFlags K) (TrackRunSampleDuration K)"
    "\<not> flag_set (TrackRunFirstSampleFlags K) (TrackRunSampleDuration K)"
    "\<not> flag_set (TrackRunSampleSize K) (TrackRunSampleFlags K)"
    "\<not> flag_set (TrackRunSampleDuration K) (TrackRunSampleFlags K)"
    "\<not> flag_set (TrackRunFirstSampleFlags K) (TrackRunSampleFlags K)"
    "\<not> flag_set (TrackRunSampleSize K) (TrackRunFirstSampleFlags K)"
    "\<not> flag_set (TrackRunSampleDuration K) (TrackRunFirstSampleFlags K)"
    "\<not> flag_set (TrackRunSampleFlags K) (TrackRunFirstSampleFlags K)"
  using assms by (simp_all add: flags_ok_def flag_set_def and.commute)

lemma loop_Run_Flags_clear:
  assumes "flags_ok K"
  shows "\<not> flag_set (TrackFragRun.Flags (Run (fst (loop_state K TS REL f m)))) (TrackRunSampleSize K)"
    "\<not> flag_set (TrackFragRun.Flags (Run (fst (loop_state K TS REL f m)))) (TrackRunSampleDuration K)"
    "\<not> flag_set (TrackFragRun.Flags (Run (fst (loop_state K TS REL f m)))) (TrackRunSampleFlags K)"
    "\<not> flag_set (TrackFragRun.Flags (Run (fst (loop_state K TS REL f m)))) (TrackRunFirstSampleFlags K)"
  by (simp_all add: loop_Run_Flags flag_set_simps flags_ok_run [OF assms])

text \<open>What the header and the run declare, by the defaults left after the loop.\<close>

lemma final_flag_size:
  assumes "flags_ok K"
  shows "flag_set (TrackFragHeader.Flags (TrackFrag.Header (final_track K TS REL f))) (TrackFragDefaultSize K)
           \<longleftrightarrow> DefaultSize (TrackFrag.Header (final_track K TS REL f)) \<noteq> 0"
    and "flag_set (TrackFragRun.Flags (Run (final_track K TS REL f))) (TrackRunSampleSize K)
           \<longleftrightarrow> DefaultSize (TrackFrag.Header (final_track K TS REL f)) = 0"
  by (simp_all add: final_track_Header_Flags final_track_Run_Flags flag_set_simps
        flags_ok_header [OF assms] flags_ok_run [OF assms] loop_Run_Flags_clear [OF assms])

lemma final_flag_duration:
  assumes "flags_ok K"
  shows "flag_set (TrackFragHeader.Flags (TrackFrag.Header (final_track K TS REL f))) (TrackFragDefaultDuration K)
           \<longleftrightarrow> DefaultDuration (TrackFrag.Header (final_track K TS REL f)) \<noteq> 0"
    and "flag_set (TrackFragRun.Flags (Run (final_track K TS REL f))) (TrackRunSampleDuration K)
           \<longleftrightarrow> DefaultDuration (TrackFrag.Header (final_track K TS REL f)) = 0"
  by (simp_all add: final_track_Header_Flags final_track_Run_Flags flag_set_simps
        flags_ok_header [OF assms] flags_ok_run [OF assms] loop_Run_Flags_clear [OF assms])

lemma final_flag_flags:
  assumes "flags_ok K"
  shows "flag_set (TrackFragHeader.Flags (TrackFrag.Header (final_track K TS REL f))) (TrackFragDefaultFlags K)
           \<longleftrightarrow> DefaultFlags (TrackFrag.Header (final_track K TS REL f)) \<noteq> 0"
    and "flag_set (TrackFragRun.Flags (Run (final_track K TS REL f))) (TrackRunSampleFlags K)
           \<longleftrightarrow> DefaultFlags (TrackFrag.Header (final_track K TS REL f)) = 0"
    and "flag_set (TrackFragRun.Flags (Run (final_track K TS REL f))) (TrackRunFirstSampleFlags K)
           \<longleftrightarrow> DefaultFlags (TrackFrag.Header (final_track K TS REL f)) \<noteq> 0 \<and>
               FirstSampleFlags (Run (final_track K TS REL f)) \<noteq>
                 DefaultFlags (TrackFrag.Header (final_track K TS REL f))"
  by (simp_all add: final_track_Header_Flags final_track_Run_Flags flag_set_simps
        flags_ok_header [OF assms] flags_ok_run [OF assms] loop_Run_Flags_clear [OF assms])

subsection \<open>The defaults in terms of the entries\<close>

lemma uniform_upt:
  assumes "0 < n"
  shows "uniform (map g [0..<n]) \<longleftrightarrow> (\<forall>i<n. g i = g 0)"
proof -
  from assms have h: "hd (map g [0..<n]) = g 0" by (simp add: hd_map)
  show ?thesis unfolding uniform_def h list_all_length by simp
qed

lemma rest_same_upt:
  assumes "2 \<le> n"
  shows "list_all (\<lambda>v. v = map g [0..<n] ! 1) (drop 2 (map g [0..<n])) \<longleftrightarrow>
         (\<forall>i<n. 1 \<le> i \<longrightarrow> g i = g 1)"
proof -
  from assms have l: "list_all (\<lambda>v. v = map g [0..<n] ! 1) (drop 2 (map g [0..<n])) \<longleftrightarrow>
      (\<forall>k<n - 2. g (2 + k) = g 1)"
    by (simp add: list_all_length)
  have "(\<forall>k<n - 2. g (2 + k) = g 1) \<longleftrightarrow> (\<forall>i<n. 1 \<le> i \<longrightarrow> g i = g 1)"
  proof
    assume k: "\<forall>k<n - 2. g (2 + k) = g 1"
    show "\<forall>i<n. 1 \<le> i \<longrightarrow> g i = g 1"
    proof (intro allI impI)
      fix i assume i: "i < n" "1 \<le> i"
      show "g i = g 1"
      proof (cases "i = 1")
        case True
        then show ?thesis by simp
      next
        case False
        with i have "i - 2 < n - 2" and e: "2 + (i - 2) = i" by simp_all
        with k have "g (2 + (i - 2)) = g 1" by blast
        then show ?thesis by (simp only: e)
      qed
    qed
  next
    assume a: "\<forall>i<n. 1 \<le> i \<longrightarrow> g i = g 1"
    show "\<forall>k<n - 2. g (2 + k) = g 1"
    proof (intro allI impI)
      fix k assume "k < n - 2"
      then have "2 + k < n" "1 \<le> 2 + k" by simp_all
      with a show "g (2 + k) = g 1" by blast
    qed
  qed
  with l show ?thesis by (simp only:)
qed

lemma final_DefaultSize:
  assumes "2 \<le> length (pending f)"
  shows "DefaultSize (TrackFrag.Header (final_track K TS REL f)) =
     (if uniform (map Size (Entries (Run (final_track K TS REL f))))
      then hd (map Size (Entries (Run (final_track K TS REL f)))) else 0)"
proof -
  from assms have n: "0 < length (pending f) - 1" "length (pending f) - 1 \<noteq> 0" by simp_all
  have 1: "DefaultSize (TrackFrag.Header (final_track K TS REL f)) =
      (if \<forall>i<length (pending f) - 1. Size (entry_at K TS REL f i) = Size (entry_at K TS REL f 0)
       then Size (entry_at K TS REL f 0) else 0)"
    using n(2) by (simp only: final_track_kept(5) loop_DefaultSize if_False)
  have 2: "uniform (map Size (Entries (Run (final_track K TS REL f)))) \<longleftrightarrow>
      (\<forall>i<length (pending f) - 1. Size (entry_at K TS REL f i) = Size (entry_at K TS REL f 0))"
    by (simp only: final_Entries map_map uniform_upt [OF n(1)] comp_def)
  have 3: "hd (map Size (Entries (Run (final_track K TS REL f)))) = Size (entry_at K TS REL f 0)"
    using n(1) by (simp add: final_Entries hd_map)
  show ?thesis by (simp only: 1 2 3)
qed

lemma final_DefaultDuration:
  assumes "2 \<le> length (pending f)"
  shows "DefaultDuration (TrackFrag.Header (final_track K TS REL f)) =
     (if uniform (map TrackFragRunEntry.Duration (Entries (Run (final_track K TS REL f))))
      then hd (map TrackFragRunEntry.Duration (Entries (Run (final_track K TS REL f)))) else 0)"
proof -
  from assms have n: "0 < length (pending f) - 1" "length (pending f) - 1 \<noteq> 0" by simp_all
  have 1: "DefaultDuration (TrackFrag.Header (final_track K TS REL f)) =
      (if \<forall>i<length (pending f) - 1. TrackFragRunEntry.Duration (entry_at K TS REL f i) =
            TrackFragRunEntry.Duration (entry_at K TS REL f 0)
       then TrackFragRunEntry.Duration (entry_at K TS REL f 0) else 0)"
    using n(2) by (simp only: final_track_kept(6) loop_DefaultDuration if_False)
  have 2: "uniform (map TrackFragRunEntry.Duration (Entries (Run (final_track K TS REL f)))) \<longleftrightarrow>
      (\<forall>i<length (pending f) - 1. TrackFragRunEntry.Duration (entry_at K TS REL f i) =
            TrackFragRunEntry.Duration (entry_at K TS REL f 0))"
    by (simp only: final_Entries map_map uniform_upt [OF n(1)] comp_def)
  have 3: "hd (map TrackFragRunEntry.Duration (Entries (Run (final_track K TS REL f)))) =
      TrackFragRunEntry.Duration (entry_at K TS REL f 0)"
    using n(1) by (simp add: final_Entries hd_map)
  show ?thesis by (simp only: 1 2 3)
qed

lemma final_DefaultFlags:
  assumes "3 \<le> length (pending f)"
  shows "DefaultFlags (TrackFrag.Header (final_track K TS REL f)) =
     (if list_all (\<lambda>v. v = map TrackFragRunEntry.Flags (Entries (Run (final_track K TS REL f))) ! 1)
           (drop 2 (map TrackFragRunEntry.Flags (Entries (Run (final_track K TS REL f)))))
      then map TrackFragRunEntry.Flags (Entries (Run (final_track K TS REL f))) ! 1 else 0)"
proof -
  from assms have n: "2 \<le> length (pending f) - 1" "1 < length (pending f) - 1" by simp_all
  have 3: "map TrackFragRunEntry.Flags (Entries (Run (final_track K TS REL f))) ! 1 =
      TrackFragRunEntry.Flags (entry_at K TS REL f 1)"
    using n(2) by (simp add: final_Entries)
  have 2: "list_all (\<lambda>v. v = map TrackFragRunEntry.Flags (Entries (Run (final_track K TS REL f))) ! 1)
           (drop 2 (map TrackFragRunEntry.Flags (Entries (Run (final_track K TS REL f))))) \<longleftrightarrow>
      (\<forall>i<length (pending f) - 1. 1 \<le> i \<longrightarrow>
         TrackFragRunEntry.Flags (entry_at K TS REL f i) = TrackFragRunEntry.Flags (entry_at K TS REL f 1))"
    by (simp only: final_Entries map_map rest_same_upt [OF n(1)] comp_def)
  show ?thesis
    unfolding 2 by (simp only: final_track_kept(7) loop_DefaultFlags [OF n(1)] 3)
qed

lemma final_FirstSampleFlags:
  assumes "2 \<le> length (pending f)"
  shows "FirstSampleFlags (Run (final_track K TS REL f)) =
     map TrackFragRunEntry.Flags (Entries (Run (final_track K TS REL f))) ! 0"
proof -
  from assms have n: "0 < length (pending f) - 1" "length (pending f) - 1 \<noteq> 0" by simp_all
  show ?thesis
    unfolding final_track_kept(2) loop_FirstSampleFlags final_Entries
    using n by simp
qed

lemma entry_flags_nonzero:
  "sample_flags_ok K \<Longrightarrow> TrackFragRunEntry.Flags (entry_at K TS REL f i) \<noteq> 0"
  by (simp add: entry_at_fields sample_flags_ok_def default_flags_def)

lemma final_second_flags_nonzero:
  assumes "3 \<le> length (pending f)" "sample_flags_ok K"
  shows "map TrackFragRunEntry.Flags (Entries (Run (final_track K TS REL f))) ! 1 \<noteq> 0"
proof -
  from assms have n: "1 < length (pending f) - 1" by simp
  show ?thesis
    unfolding final_Entries using n entry_flags_nonzero [OF assms(2)] by simp
qed

subsection \<open>The fragment that a call returns\<close>

lemma upt_small: "[0..<3] = [0, 1, 2]" "[0..<2] = [0, 1]"
  by (simp_all add: upt_rec)

lemma example_makeFragment:
  "makeFragment iso_flags ToScale_spec Relative_spec example_fragmenter =
     (\<lparr> trackFrag = Some example_track, packets = butlast (pending example_fragmenter) \<rparr>,
      example_fragmenter\<lparr> pending := [example_packet False 4000000000 [10]] \<rparr>)"
  by (simp add: makeFragment_def example_fragmenter_def example_track_def Let_def upt_small
        sample_step_def init_track_def new_entry_def seed_defaults_def add_cts_def
        finish_size_def finish_duration_def finish_flags_def default_flags_def iso_flags_def
        ToScale_spec_def example_packet_def)

lemma empty_makeFragment:
  "makeFragment iso_flags ToScale_spec Relative_spec empty_fragmenter =
     (\<lparr> trackFrag = Some empty_track, packets = butlast (pending empty_fragmenter) \<rparr>,
      empty_fragmenter\<lparr> pending := [example_packet True 2 []] \<rparr>)"
  by (simp add: makeFragment_def empty_fragmenter_def empty_track_def Let_def upt_small
        sample_step_def init_track_def new_entry_def seed_defaults_def add_cts_def
        finish_size_def finish_duration_def finish_flags_def default_flags_def iso_flags_def
        ToScale_spec_def example_packet_def)

lemma iso_flags_ok: "flags_ok iso_flags" "sample_flags_ok iso_flags"
  by (simp_all add: flags_ok_def sample_flags_ok_def iso_flags_def)

text \<open>
  C5. With fewer than two packets pending \<open>makeFragment\<close> returns the zero fragment (no
  track fragment, no packets) and leaves the fragmenter as it was. With \<open>n \<ge> 2\<close> pending
  it returns a track fragment with \<open>n - 1\<close> entries and the first \<open>n - 1\<close> packets, and
  leaves exactly the last packet pending; whatever is appended to the buffer then, the
  next fragment starts with that packet.
\<close>

theorem makeFragment_consumes:
  "(length (pending f) < 2 \<longrightarrow>
      makeFragment K TS REL f = (\<lparr> trackFrag = None, packets = [] \<rparr>, f)) \<and>
   (2 \<le> length (pending f) \<longrightarrow>
      (\<exists>track. trackFrag (fst (makeFragment K TS REL f)) = Some track \<and>
         length (Entries (Run track)) = length (pending f) - 1) \<and>
      packets (fst (makeFragment K TS REL f)) = butlast (pending f) \<and>
      length (packets (fst (makeFragment K TS REL f))) = length (pending f) - 1 \<and>
      snd (makeFragment K TS REL f) = f\<lparr> pending := [last (pending f)] \<rparr> \<and>
      (\<forall>more. more \<noteq> [] \<longrightarrow>
         hd (packets (fst (makeFragment K TS REL
               ((snd (makeFragment K TS REL f))
                  \<lparr> pending := pending (snd (makeFragment K TS REL f)) @ more \<rparr>)))) =
         last (pending f)))"
proof (intro conjI impI)
  assume "length (pending f) < 2"
  then show "makeFragment K TS REL f = (\<lparr> trackFrag = None, packets = [] \<rparr>, f)"
    by (rule makeFragment_few)
next
  assume n: "2 \<le> length (pending f)"
  then have ne: "pending f \<noteq> []" by auto
  note m = makeFragment_some [OF n, of K TS REL]
  show "\<exists>track. trackFrag (fst (makeFragment K TS REL f)) = Some track \<and>
         length (Entries (Run track)) = length (pending f) - 1"
    by (simp add: m final_Entries)
  show "packets (fst (makeFragment K TS REL f)) = butlast (pending f)"
    by (simp add: m butlast_conv_take)
  show "length (packets (fst (makeFragment K TS REL f))) = length (pending f) - 1"
    by (simp add: m)
  show s: "snd (makeFragment K TS REL f) = f\<lparr> pending := [last (pending f)] \<rparr>"
    using ne by (simp add: m last_conv_nth)
  show "\<forall>more. more \<noteq> [] \<longrightarrow>
         hd (packets (fst (makeFragment K TS REL
               ((snd (makeFragment K TS REL f))
                  \<lparr> pending := pending (snd (makeFragment K TS REL f)) @ more \<rparr>)))) =
         last (pending f)"
  proof (intro allI impI)
    fix more :: "Packet list"
    assume "more \<noteq> []"
    then have l: "2 \<le> length (pending (f\<lparr> pending := last (pending f) # more \<rparr>))"
      by (cases more) simp_all
    show "hd (packets (fst (makeFragment K TS REL
               ((snd (makeFragment K TS REL f))
                  \<lparr> pending := pending (snd (makeFragment K TS REL f)) @ more \<rparr>)))) =
         last (pending f)"
      using \<open>more \<noteq> []\<close> by (simp add: s makeFragment_some [OF l])
  qed
qed

theorem makeFragment_consumes_witness:
  "length (pending example_fragmenter) = 4 \<and>
   trackFrag (fst (makeFragment iso_flags ToScale_spec Relative_spec example_fragmenter)) =
     Some example_track \<and>
   length (Entries (Run example_track)) = 3 \<and>
   packets (fst (makeFragment iso_flags ToScale_spec Relative_spec example_fragmenter)) =
     [example_packet True 0 [1, 2, 3], example_packet False 1000000000 [4, 5, 6],
      example_packet False 3000000000 [7, 8, 9]] \<and>
   pending (snd (makeFragment iso_flags ToScale_spec Relative_spec example_fragmenter)) =
     [example_packet False 4000000000 [10]] \<and>
   trackFrag (fst (makeFragment iso_flags ToScale_spec Relative_spec
     (snd (makeFragment iso_flags ToScale_spec Relative_spec example_fragmenter)))) = None"
  using makeFragment_consumes [of example_fragmenter iso_flags ToScale_spec Relative_spec]
    makeFragment_consumes [of "snd (makeFragment iso_flags ToScale_spec Relative_spec example_fragmenter)"
      iso_flags ToScale_spec Relative_spec]
  by (simp add: example_makeFragment)
     (simp add: example_fragmenter_def example_track_def)

lemma ucast_sub_64_32: "(ucast ((a::64 word) - b) :: 32 word) = ucast a - ucast b"
proof -
  have d: "is_down (ucast :: 64 word \<Rightarrow> 32 word)" by (simp add: is_down)
  have "(ucast (a - b) :: 32 word) = ucast (word_of_int (uint a - uint b) :: 64 word)" by simp
  also have "\<dots> = word_of_int (uint a - uint b)" by (rule ucast_down_wi [OF d])
  also have "\<dots> = word_of_int (uint a) - word_of_int (uint b)" by simp
  also have "\<dots> = ucast (word_of_int (uint a) :: 64 word) - ucast (word_of_int (uint b) :: 64 word)"
    by (simp only: ucast_down_wi [OF d])
  finally show ?thesis by simp
qed

lemma unat_ucast_64_32: "unat (ucast (x::64 word) :: 32 word) = unat x mod 2 ^ 32"
  by (simp add: unsigned_ucast_eq take_bit_eq_mod)

lemma unat_ucast_sub:
  "(a::64 word) \<le> b \<Longrightarrow> unat b - unat a < 2 ^ 32 \<Longrightarrow>
     unat (ucast (b - a) :: 32 word) = unat b - unat a"
  by (simp add: unat_ucast_64_32 unat_sub)

lemma telescope_word:
  "sum_list (map (\<lambda>i. ucast (T (i + 1) - T i) :: 32 word) [0..<m]) = ucast ((T m :: 64 word) - T 0)"
  by (induction m) (simp_all add: ucast_sub_64_32)

lemma telescope_nat:
  "list_all (\<lambda>i. (T i :: 64 word) \<le> T (i + 1) \<and> unat (T (i + 1)) - unat (T i) < 2 ^ 32) [0..<m] \<Longrightarrow>
     unat (T 0) \<le> unat (T m) \<and>
     sum_list (map (\<lambda>i. unat (ucast (T (i + 1) - T i) :: 32 word)) [0..<m]) = unat (T m) - unat (T 0)"
proof (induction m)
  case 0
  show ?case by simp
next
  case (Suc m)
  then have IH: "unat (T 0) \<le> unat (T m)"
      "sum_list (map (\<lambda>i. unat (ucast (T (i + 1) - T i) :: 32 word)) [0..<m]) = unat (T m) - unat (T 0)"
    and s: "T m \<le> T (m + 1)" "unat (T (m + 1)) - unat (T m) < 2 ^ 32"
    by simp_all
  from s(1) have le: "unat (T m) \<le> unat (T (Suc m))" by (simp add: word_le_nat_alt)
  have "unat (ucast (T (m + 1) - T m) :: 32 word) = unat (T (m + 1)) - unat (T m)"
    by (rule unat_ucast_sub [OF s])
  with IH le show ?case by simp
qed

lemma final_durations:
  "map TrackFragRunEntry.Duration (Entries (Run (final_track K TS REL f))) =
     map (\<lambda>i. ucast (ticks TS f (i + 1) - ticks TS f i)) [0..<length (pending f) - 1]"
  by (simp add: final_Entries entry_at_fields ticks_def)

text \<open>
  C6, as the code has it. With \<open>n \<ge> 2\<close> packets pending, the duration of entry \<open>i\<close> is
  the ticks of packet \<open>i + 1\<close> minus the ticks of packet \<open>i\<close>, cut to 32 bits. The
  durations add up, in 32-bit arithmetic, to the ticks of the last pending packet (the
  one that stays pending, not the last one consumed) minus the ticks of the first; and
  as numbers too, when the ticks do not decrease and each step is below \<open>2 ^ 32\<close>.
\<close>

theorem makeFragment_durations:
  assumes "2 \<le> length (pending f)"
  shows "\<exists>track. trackFrag (fst (makeFragment K TS REL f)) = Some track \<and>
     map TrackFragRunEntry.Duration (Entries (Run track)) =
       map (\<lambda>i. ucast (ticks TS f (i + 1) - ticks TS f i)) [0..<length (pending f) - 1] \<and>
     sum_list (map TrackFragRunEntry.Duration (Entries (Run track))) =
       ucast (ticks TS f (length (pending f) - 1) - ticks TS f 0) \<and>
     (no_wrap TS f \<longrightarrow>
        sum_list (map (\<lambda>e. unat (TrackFragRunEntry.Duration e)) (Entries (Run track))) =
          unat (ticks TS f (length (pending f) - 1)) - unat (ticks TS f 0))"
proof -
  have t: "trackFrag (fst (makeFragment K TS REL f)) = Some (final_track K TS REL f)"
    by (simp add: makeFragment_some [OF assms])
  have w: "sum_list (map TrackFragRunEntry.Duration (Entries (Run (final_track K TS REL f)))) =
       ucast (ticks TS f (length (pending f) - 1) - ticks TS f 0)"
    unfolding final_durations by (rule telescope_word)
  have "map (\<lambda>e. unat (TrackFragRunEntry.Duration e)) (Entries (Run (final_track K TS REL f))) =
      map unat (map TrackFragRunEntry.Duration (Entries (Run (final_track K TS REL f))))"
    by simp
  also have "\<dots> = map (\<lambda>i. unat (ucast (ticks TS f (i + 1) - ticks TS f i) :: 32 word))
      [0..<length (pending f) - 1]"
    unfolding final_durations by simp
  finally have n: "sum_list (map (\<lambda>e. unat (TrackFragRunEntry.Duration e)) (Entries (Run (final_track K TS REL f)))) =
          unat (ticks TS f (length (pending f) - 1)) - unat (ticks TS f 0)" if "no_wrap TS f"
    using telescope_nat [of "ticks TS f" "length (pending f) - 1"] that
    by (simp add: no_wrap_def)
  from t final_durations w n show ?thesis by blast
qed

theorem makeFragment_durations_witness:
  "2 \<le> length (pending example_fragmenter) \<and>
   no_wrap ToScale_spec example_fragmenter \<and>
   trackFrag (fst (makeFragment iso_flags ToScale_spec Relative_spec example_fragmenter)) =
     Some example_track \<and>
   map TrackFragRunEntry.Duration (Entries (Run example_track)) = [1000, 2000, 1000] \<and>
   sum_list (map TrackFragRunEntry.Duration (Entries (Run example_track))) = 4000 \<and>
   ticks ToScale_spec example_fragmenter 3 = 4000 \<and>
   ticks ToScale_spec example_fragmenter 0 = 0"
  using makeFragment_durations [of example_fragmenter iso_flags ToScale_spec Relative_spec]
  by (simp add: example_makeFragment)
     (simp add: example_fragmenter_def example_track_def no_wrap_def ticks_def ToScale_spec_def
        example_packet_def upt_small)

text \<open>
  C6 as stated fails: of the four packets at 0, 1, 3 and 4 seconds the last one consumed
  is at 3 seconds, 3000 ticks after the first, and the durations add up to 4000.
\<close>

theorem makeFragment_durations_counterexample:
  "trackFrag (fst (makeFragment iso_flags ToScale_spec Relative_spec example_fragmenter)) =
     Some example_track \<and>
   sum_list (map TrackFragRunEntry.Duration (Entries (Run example_track))) = 4000 \<and>
   Packet.Time (last (packets (fst (makeFragment iso_flags ToScale_spec Relative_spec
      example_fragmenter)))) = 3000000000 \<and>
   Packet.Time (hd (pending example_fragmenter)) = 0 \<and>
   ToScale_spec 3000000000 (timeScale example_fragmenter) -
     ToScale_spec 0 (timeScale example_fragmenter) = 3000"
  by (simp add: example_makeFragment)
     (simp add: example_fragmenter_def example_track_def ToScale_spec_def example_packet_def)

text \<open>
  C3, as the code has it. With \<open>n \<ge> 2\<close> packets pending and flag bits that can be told
  apart: when all entries have the same size and it is not 0, the header declares that
  size as the default and the run carries no sizes; otherwise (the sizes differ, or all
  are 0) the header declares no default size and the run carries a size per entry. The
  same for the durations. The value 0 is what stands for "no default".
\<close>

theorem makeFragment_size_duration_defaults:
  assumes "2 \<le> length (pending f)" and "flags_ok K"
  shows "\<exists>track. trackFrag (fst (makeFragment K TS REL f)) = Some track \<and>
     (if uniform (map Size (Entries (Run track))) \<and> hd (map Size (Entries (Run track))) \<noteq> 0
      then flag_set (TrackFragHeader.Flags (TrackFrag.Header track)) (TrackFragDefaultSize K) \<and>
           DefaultSize (TrackFrag.Header track) = hd (map Size (Entries (Run track))) \<and>
           \<not> flag_set (TrackFragRun.Flags (Run track)) (TrackRunSampleSize K)
      else \<not> flag_set (TrackFragHeader.Flags (TrackFrag.Header track)) (TrackFragDefaultSize K) \<and>
           DefaultSize (TrackFrag.Header track) = 0 \<and>
           flag_set (TrackFragRun.Flags (Run track)) (TrackRunSampleSize K)) \<and>
     (if uniform (map TrackFragRunEntry.Duration (Entries (Run track))) \<and>
         hd (map TrackFragRunEntry.Duration (Entries (Run track))) \<noteq> 0
      then flag_set (TrackFragHeader.Flags (TrackFrag.Header track)) (TrackFragDefaultDuration K) \<and>
           DefaultDuration (TrackFrag.Header track) =
             hd (map TrackFragRunEntry.Duration (Entries (Run track))) \<and>
           \<not> flag_set (TrackFragRun.Flags (Run track)) (TrackRunSampleDuration K)
      else \<not> flag_set (TrackFragHeader.Flags (TrackFrag.Header track)) (TrackFragDefaultDuration K) \<and>
           DefaultDuration (TrackFrag.Header track) = 0 \<and>
           flag_set (TrackFragRun.Flags (Run track)) (TrackRunSampleDuration K))"
proof -
  have t: "trackFrag (fst (makeFragment K TS REL f)) = Some (final_track K TS REL f)"
    by (simp add: makeFragment_some [OF assms(1)])
  note s = final_flag_size [OF assms(2), of TS REL f] final_DefaultSize [OF assms(1), of K TS REL]
  note d = final_flag_duration [OF assms(2), of TS REL f]
    final_DefaultDuration [OF assms(1), of K TS REL]
  have size: "if uniform (map Size (Entries (Run (final_track K TS REL f)))) \<and>
         hd (map Size (Entries (Run (final_track K TS REL f)))) \<noteq> 0
      then flag_set (TrackFragHeader.Flags (TrackFrag.Header (final_track K TS REL f))) (TrackFragDefaultSize K) \<and>
           DefaultSize (TrackFrag.Header (final_track K TS REL f)) =
             hd (map Size (Entries (Run (final_track K TS REL f)))) \<and>
           \<not> flag_set (TrackFragRun.Flags (Run (final_track K TS REL f))) (TrackRunSampleSize K)
      else \<not> flag_set (TrackFragHeader.Flags (TrackFrag.Header (final_track K TS REL f))) (TrackFragDefaultSize K) \<and>
           DefaultSize (TrackFrag.Header (final_track K TS REL f)) = 0 \<and>
           flag_set (TrackFragRun.Flags (Run (final_track K TS REL f))) (TrackRunSampleSize K)"
    unfolding s(1,2) by (simp only: s(3) split: if_splits) simp
  have dur: "if uniform (map TrackFragRunEntry.Duration (Entries (Run (final_track K TS REL f)))) \<and>
         hd (map TrackFragRunEntry.Duration (Entries (Run (final_track K TS REL f)))) \<noteq> 0
      then flag_set (TrackFragHeader.Flags (TrackFrag.Header (final_track K TS REL f))) (TrackFragDefaultDuration K) \<and>
           DefaultDuration (TrackFrag.Header (final_track K TS REL f)) =
             hd (map TrackFragRunEntry.Duration (Entries (Run (final_track K TS REL f)))) \<and>
           \<not> flag_set (TrackFragRun.Flags (Run (final_track K TS REL f))) (TrackRunSampleDuration K)
      else \<not> flag_set (TrackFragHeader.Flags (TrackFrag.Header (final_track K TS REL f))) (TrackFragDefaultDuration K) \<and>
           DefaultDuration (TrackFrag.Header (final_track K TS REL f)) = 0 \<and>
           flag_set (TrackFragRun.Flags (Run (final_track K TS REL f))) (TrackRunSampleDuration K)"
    unfolding d(1,2) by (simp only: d(3) split: if_splits) simp
  from t size dur show ?thesis by blast
qed

theorem makeFragment_size_duration_defaults_witness:
  "2 \<le> length (pending example_fragmenter) \<and> flags_ok iso_flags \<and>
   trackFrag (fst (makeFragment iso_flags ToScale_spec Relative_spec example_fragmenter)) =
     Some example_track \<and>
   map Size (Entries (Run example_track)) = [3, 3, 3] \<and>
   flag_set (TrackFragHeader.Flags (TrackFrag.Header example_track)) (TrackFragDefaultSize iso_flags) \<and>
   DefaultSize (TrackFrag.Header example_track) = 3 \<and>
   \<not> flag_set (TrackFragRun.Flags (Run example_track)) (TrackRunSampleSize iso_flags) \<and>
   map TrackFragRunEntry.Duration (Entries (Run example_track)) = [1000, 2000, 1000] \<and>
   \<not> flag_set (TrackFragHeader.Flags (TrackFrag.Header example_track)) (TrackFragDefaultDuration iso_flags) \<and>
   flag_set (TrackFragRun.Flags (Run example_track)) (TrackRunSampleDuration iso_flags)"
  using makeFragment_size_duration_defaults [of example_fragmenter iso_flags ToScale_spec Relative_spec]
  by (simp add: example_makeFragment iso_flags_ok)
     (simp add: example_fragmenter_def example_track_def uniform_def)

text \<open>
  C3 as stated fails: two empty packets a nanosecond apart give entries that all have
  size 0 and duration 0, and the header declares neither default: the run carries a size
  and a duration per entry.
\<close>

theorem makeFragment_zero_default_counterexample:
  "trackFrag (fst (makeFragment iso_flags ToScale_spec Relative_spec empty_fragmenter)) =
     Some empty_track \<and>
   map Size (Entries (Run empty_track)) = [0, 0] \<and>
   \<not> flag_set (TrackFragHeader.Flags (TrackFrag.Header empty_track)) (TrackFragDefaultSize iso_flags) \<and>
   flag_set (TrackFragRun.Flags (Run empty_track)) (TrackRunSampleSize iso_flags) \<and>
   map TrackFragRunEntry.Duration (Entries (Run empty_track)) = [0, 0] \<and>
   \<not> flag_set (TrackFragHeader.Flags (TrackFrag.Header empty_track)) (TrackFragDefaultDuration iso_flags) \<and>
   flag_set (TrackFragRun.Flags (Run empty_track)) (TrackRunSampleDuration iso_flags)"
  by (simp add: empty_makeFragment)
     (simp add: empty_track_def flag_set_def iso_flags_def)

text \<open>
  C4. With at least two entries (three packets pending), flag bits that can be told apart
  and sample flags that are not 0: the first-sample flags are those of entry 0. When all
  entries from index 2 on have the flags of entry 1, the default flags are those of
  entry 1, the header declares them, the run carries no flags per entry, and it carries
  the first-sample flags exactly when the flags of entry 0 differ from the default.
  Otherwise the default is cleared, the header declares none, and the run carries flags
  per entry and no first-sample flags.
\<close>

theorem makeFragment_flags_default:
  assumes "3 \<le> length (pending f)" and "flags_ok K" and "sample_flags_ok K"
  shows "\<exists>track. trackFrag (fst (makeFragment K TS REL f)) = Some track \<and>
     FirstSampleFlags (Run track) = map TrackFragRunEntry.Flags (Entries (Run track)) ! 0 \<and>
     (if list_all (\<lambda>v. v = map TrackFragRunEntry.Flags (Entries (Run track)) ! 1)
           (drop 2 (map TrackFragRunEntry.Flags (Entries (Run track))))
      then DefaultFlags (TrackFrag.Header track) =
             map TrackFragRunEntry.Flags (Entries (Run track)) ! 1 \<and>
           flag_set (TrackFragHeader.Flags (TrackFrag.Header track)) (TrackFragDefaultFlags K) \<and>
           \<not> flag_set (TrackFragRun.Flags (Run track)) (TrackRunSampleFlags K) \<and>
           (flag_set (TrackFragRun.Flags (Run track)) (TrackRunFirstSampleFlags K) \<longleftrightarrow>
              map TrackFragRunEntry.Flags (Entries (Run track)) ! 0 \<noteq>
              map TrackFragRunEntry.Flags (Entries (Run track)) ! 1)
      else DefaultFlags (TrackFrag.Header track) = 0 \<and>
           \<not> flag_set (TrackFragHeader.Flags (TrackFrag.Header track)) (TrackFragDefaultFlags K) \<and>
           flag_set (TrackFragRun.Flags (Run track)) (TrackRunSampleFlags K) \<and>
           \<not> flag_set (TrackFragRun.Flags (Run track)) (TrackRunFirstSampleFlags K))"
proof -
  from assms(1) have two: "2 \<le> length (pending f)" by simp
  have t: "trackFrag (fst (makeFragment K TS REL f)) = Some (final_track K TS REL f)"
    by (simp add: makeFragment_some [OF two])
  note fl = final_flag_flags [OF assms(2), of TS REL f]
  note df = final_DefaultFlags [OF assms(1), of K TS REL]
  note nz = final_second_flags_nonzero [OF assms(1) assms(3), of TS REL]
  note fs = final_FirstSampleFlags [OF two, of K TS REL]
  have "if list_all (\<lambda>v. v = map TrackFragRunEntry.Flags (Entries (Run (final_track K TS REL f))) ! 1)
           (drop 2 (map TrackFragRunEntry.Flags (Entries (Run (final_track K TS REL f)))))
      then DefaultFlags (TrackFrag.Header (final_track K TS REL f)) =
             map TrackFragRunEntry.Flags (Entries (Run (final_track K TS REL f))) ! 1 \<and>
           flag_set (TrackFragHeader.Flags (TrackFrag.Header (final_track K TS REL f))) (TrackFragDefaultFlags K) \<and>
           \<not> flag_set (TrackFragRun.Flags (Run (final_track K TS REL f))) (TrackRunSampleFlags K) \<and>
           (flag_set (TrackFragRun.Flags (Run (final_track K TS REL f))) (TrackRunFirstSampleFlags K) \<longleftrightarrow>
              map TrackFragRunEntry.Flags (Entries (Run (final_track K TS REL f))) ! 0 \<noteq>
              map TrackFragRunEntry.Flags (Entries (Run (final_track K TS REL f))) ! 1)
      else DefaultFlags (TrackFrag.Header (final_track K TS REL f)) = 0 \<and>
           \<not> flag_set (TrackFragHeader.Flags (TrackFrag.Header (final_track K TS REL f))) (TrackFragDefaultFlags K) \<and>
           flag_set (TrackFragRun.Flags (Run (final_track K TS REL f))) (TrackRunSampleFlags K) \<and>
           \<not> flag_set (TrackFragRun.Flags (Run (final_track K TS REL f))) (TrackRunFirstSampleFlags K)"
    unfolding fl fs using nz by (simp only: df split: if_splits) simp
  with t fs show ?thesis by blast
qed

theorem makeFragment_flags_default_witness:
  "3 \<le> length (pending example_fragmenter) \<and> flags_ok iso_flags \<and> sample_flags_ok iso_flags \<and>
   trackFrag (fst (makeFragment iso_flags ToScale_spec Relative_spec example_fragmenter)) =
     Some example_track \<and>
   map TrackFragRunEntry.Flags (Entries (Run example_track)) =
     [SampleNoDependencies iso_flags, SampleNonKeyframe iso_flags, SampleNonKeyframe iso_flags] \<and>
   DefaultFlags (TrackFrag.Header example_track) = SampleNonKeyframe iso_flags \<and>
   FirstSampleFlags (Run example_track) = SampleNoDependencies iso_flags \<and>
   flag_set (TrackFragHeader.Flags (TrackFrag.Header example_track)) (TrackFragDefaultFlags iso_flags) \<and>
   flag_set (TrackFragRun.Flags (Run example_track)) (TrackRunFirstSampleFlags iso_flags) \<and>
   \<not> flag_set (TrackFragRun.Flags (Run example_track)) (TrackRunSampleFlags iso_flags)"
  using makeFragment_flags_default [of example_fragmenter iso_flags ToScale_spec Relative_spec]
  by (simp add: example_makeFragment iso_flags_ok)
     (simp add: example_fragmenter_def example_track_def iso_flags_def)

section \<open>writeFragment\<close>

lemma payload_len_eq: "payload_len pkts off = off + length (concat (map Data pkts))"
  unfolding payload_len_def by (induction pkts arbitrary: off) simp_all

lemma payload_len_payload: "payload_len (packets track) off = off + length (payload track)"
  by (simp add: payload_len_eq payload_def)

lemma write_packets_buffer:
  "write_packets buffer_Write w pkts = (w @ concat (map Data pkts), None)"
  by (induction pkts arbitrary: w) (simp_all add: buffer_Write_def)

lemma store_DataOffset_fields:
  "Header_of (store_DataOffset v r h) = Header_of h"
  "DecodeTime_of (store_DataOffset v r h) = DecodeTime_of h"
  "Run_of (store_DataOffset v r h) = Run_of h"
  "run_at (store_DataOffset v r h) r' =
     (if r' = r then (run_at h r)\<lparr> DataOffset := v \<rparr> else run_at h r')"
  by (simp_all add: store_DataOffset_def)

lemma Run_ptr_store: "Run_ptr (store_DataOffset v r h) p = Run_ptr h p"
  by (cases p) (simp_all add: Run_ptr_def store_DataOffset_def)

text \<open>
  The pointers that a loop dereferences from track \<open>i\<close> on: each is there and leads to
  a run.
\<close>

lemma reach_Cons:
  assumes "\<forall>j<length (track # rest). i + j < length mtracks \<and> Run_ptr h (mtracks ! (i + j)) \<noteq> None"
  shows "i < length mtracks" and "\<exists>r. Run_ptr h (mtracks ! i) = Some r"
    and "\<forall>j<length rest. Suc i + j < length mtracks \<and> Run_ptr h (mtracks ! (Suc i + j)) \<noteq> None"
proof -
  from assms have 0: "i + 0 < length mtracks \<and> Run_ptr h (mtracks ! (i + 0)) \<noteq> None"
    by (intro assms [rule_format]) simp
  then show "i < length mtracks" and "\<exists>r. Run_ptr h (mtracks ! i) = Some r" by auto
  show "\<forall>j<length rest. Suc i + j < length mtracks \<and> Run_ptr h (mtracks ! (Suc i + j)) \<noteq> None"
  proof (intro allI impI)
    fix j assume "j < length rest"
    then have "Suc j < length (track # rest)" by simp
    from assms [rule_format, OF this]
    show "Suc i + j < length mtracks \<and> Run_ptr h (mtracks ! (Suc i + j)) \<noteq> None" by simp
  qed
qed

lemma write_tracks_plain_same:
  assumes "\<forall>j<length tracks. i + j < length mtracks \<and> Run_ptr h (mtracks ! (i + j)) \<noteq> None"
  shows "on_sink (write_tracks Write off i tracks mtracks h w) =
         on_sink (write_tracks_plain Write tracks h0 w)"
  using assms
proof (induction tracks arbitrary: i h h0 w)
  case Nil
  show ?case by simp
next
  case (Cons track rest)
  note r = reach_Cons [OF Cons.prems]
  from r(2) obtain r0 where r0: "Run_ptr h (mtracks ! i) = Some r0" ..
  have rest: "\<forall>j<length rest. Suc i + j < length mtracks \<and>
      Run_ptr (store_DataOffset (word_of_nat off) r0 h) (mtracks ! (Suc i + j)) \<noteq> None"
    using r(3) by (simp only: Run_ptr_store)
  show ?case
  proof (cases "write_packets Write w (packets track)")
    case (Pair w' e)
    show ?thesis
    proof (cases e)
      case None
      with Pair r(1) r0 Cons.IH [OF rest] show ?thesis by (simp add: Let_def)
    next
      case (Some x)
      with Pair r(1) r0 show ?thesis by (simp add: Let_def)
    qed
  qed
qed

lemma assign_offsets_reach:
  "assign_offsets off i tracks mtracks h = Some (h1, e) \<Longrightarrow>
     Header_of h1 = Header_of h \<and> DecodeTime_of h1 = DecodeTime_of h \<and> Run_of h1 = Run_of h \<and>
     (\<forall>j<length tracks. i + j < length mtracks \<and> Run_ptr h (mtracks ! (i + j)) \<noteq> None)"
proof (induction tracks arbitrary: off i h)
  case Nil
  then show ?case by simp
next
  case (Cons track rest)
  from Cons.prems have i: "i < length mtracks" by (simp split: if_splits)
  with Cons.prems obtain r0 where r0: "Run_ptr h (mtracks ! i) = Some r0"
    by (auto split: option.splits)
  from Cons.prems i r0
  have "assign_offsets (payload_len (packets track) off) (Suc i) rest mtracks
      (store_DataOffset (word_of_nat off) r0 h) = Some (h1, e)" by simp
  from Cons.IH [OF this]
  have f: "Header_of h1 = Header_of h" "DecodeTime_of h1 = DecodeTime_of h" "Run_of h1 = Run_of h"
    and rest: "\<forall>j<length rest. Suc i + j < length mtracks \<and> Run_ptr h (mtracks ! (Suc i + j)) \<noteq> None"
    by (simp_all add: store_DataOffset_fields Run_ptr_store)
  have "i + j < length mtracks \<and> Run_ptr h (mtracks ! (i + j)) \<noteq> None"
    if "j < length (track # rest)" for j
  proof (cases j)
    case 0
    with i r0 show ?thesis by simp
  next
    case (Suc k)
    with that rest show ?thesis by simp
  qed
  with f show ?case by blast
qed

lemma assign_offsets_Some:
  assumes "\<forall>j<length tracks. i + j < length mtracks \<and> Run_ptr h (mtracks ! (i + j)) \<noteq> None"
  shows "\<exists>h1. assign_offsets off i tracks mtracks h =
           Some (h1, off + length (concat (map payload tracks)))"
  using assms
proof (induction tracks arbitrary: off i h)
  case Nil
  show ?case by simp
next
  case (Cons track rest)
  note r = reach_Cons [OF Cons.prems]
  from r(2) obtain r0 where r0: "Run_ptr h (mtracks ! i) = Some r0" ..
  have rest: "\<forall>j<length rest. Suc i + j < length mtracks \<and>
      Run_ptr (store_DataOffset (word_of_nat off) r0 h) (mtracks ! (Suc i + j)) \<noteq> None"
    using r(3) by (simp only: Run_ptr_store)
  from Cons.IH [OF rest, of "payload_len (packets track) off"] r(1) r0
  show ?case by (simp add: payload_len_payload add.assoc)
qed

lemma assign_offsets_other:
  "assign_offsets off i tracks mtracks h = Some (h1, e) \<Longrightarrow>
   \<forall>j<length tracks. Run_ptr h (mtracks ! (i + j)) \<noteq> Some r \<Longrightarrow>
   run_at h1 r = run_at h r"
proof (induction tracks arbitrary: off i h)
  case Nil
  then show ?case by simp
next
  case (Cons track rest)
  from Cons.prems(1) have i: "i < length mtracks" by (simp split: if_splits)
  with Cons.prems(1) obtain r0 where r0: "Run_ptr h (mtracks ! i) = Some r0"
    by (auto split: option.splits)
  from Cons.prems(1) i r0
  have a: "assign_offsets (payload_len (packets track) off) (Suc i) rest mtracks
      (store_DataOffset (word_of_nat off) r0 h) = Some (h1, e)" by simp
  have "Run_ptr h (mtracks ! (i + 0)) \<noteq> Some r"
    by (intro Cons.prems(2) [rule_format]) simp
  with r0 have ne: "r \<noteq> r0" by auto
  have rest: "\<forall>j<length rest.
      Run_ptr (store_DataOffset (word_of_nat off) r0 h) (mtracks ! (Suc i + j)) \<noteq> Some r"
  proof (intro allI impI)
    fix j assume "j < length rest"
    then have "Suc j < length (track # rest)" by simp
    from Cons.prems(2) [rule_format, OF this]
    show "Run_ptr (store_DataOffset (word_of_nat off) r0 h) (mtracks ! (Suc i + j)) \<noteq> Some r"
      by (simp add: Run_ptr_store)
  qed
  from Cons.IH [OF a rest] ne show ?case by (simp add: store_DataOffset_fields)
qed

lemma payload_pos_0: "payload_pos off tracks 0 = off"
  by (simp add: payload_pos_def)

lemma payload_pos_Suc:
  "payload_pos off (track # rest) (Suc j) = payload_pos (off + length (payload track)) rest j"
  by (simp add: payload_pos_def)

lemma assign_offsets_runs:
  "assign_offsets off i tracks mtracks h = Some (h1, e) \<Longrightarrow>
   distinct (map (\<lambda>j. Run_ptr h (mtracks ! (i + j))) [0..<length tracks]) \<Longrightarrow>
   j < length tracks \<Longrightarrow> Run_ptr h (mtracks ! (i + j)) = Some r \<Longrightarrow>
   run_at h1 r = (run_at h r)\<lparr> DataOffset := word_of_nat (payload_pos off tracks j) \<rparr>"
proof (induction tracks arbitrary: off i h j)
  case Nil
  then show ?case by simp
next
  case (Cons track rest)
  from Cons.prems(1) have i: "i < length mtracks" by (simp split: if_splits)
  with Cons.prems(1) obtain r0 where r0: "Run_ptr h (mtracks ! i) = Some r0"
    by (auto split: option.splits)
  define h' where "h' = store_DataOffset (word_of_nat off) r0 h"
  from Cons.prems(1) i r0
  have a: "assign_offsets (payload_len (packets track) off) (Suc i) rest mtracks h' = Some (h1, e)"
    by (simp add: h'_def)
  have u: "[0..<length (track # rest)] = 0 # map Suc [0..<length rest]"
    by (simp add: upt_conv_Cons map_Suc_upt del: upt_Suc)
  from Cons.prems(2)
  have n0: "Run_ptr h (mtracks ! i) \<notin>
      set (map (\<lambda>j. Run_ptr h (mtracks ! (Suc i + j))) [0..<length rest])"
    and d: "distinct (map (\<lambda>j. Run_ptr h (mtracks ! (Suc i + j))) [0..<length rest])"
    unfolding u by (simp_all add: comp_def)
  have d0: "Run_ptr h (mtracks ! (Suc i + k)) \<noteq> Some r0" if "k < length rest" for k
  proof
    assume "Run_ptr h (mtracks ! (Suc i + k)) = Some r0"
    with r0 have "Run_ptr h (mtracks ! i) = (\<lambda>j. Run_ptr h (mtracks ! (Suc i + j))) k" by simp
    moreover from that have "k \<in> set [0..<length rest]" by simp
    ultimately have "Run_ptr h (mtracks ! i) \<in>
        (\<lambda>j. Run_ptr h (mtracks ! (Suc i + j))) ` set [0..<length rest]" by (rule image_eqI)
    with n0 show False unfolding set_map by blast
  qed
  have d': "distinct (map (\<lambda>j. Run_ptr h' (mtracks ! (Suc i + j))) [0..<length rest])"
    using d by (simp only: h'_def Run_ptr_store)
  show ?case
  proof (cases j)
    case 0
    with Cons.prems(4) r0 have r: "r = r0" by simp
    have "\<forall>k<length rest. Run_ptr h' (mtracks ! (Suc i + k)) \<noteq> Some r0"
      using d0 by (simp only: h'_def Run_ptr_store) blast
    from assign_offsets_other [OF a this]
    show ?thesis by (simp add: r 0 h'_def store_DataOffset_fields payload_pos_0)
  next
    case (Suc k)
    with Cons.prems(3) have k: "k < length rest" by simp
    from Cons.prems(4) Suc have rk: "Run_ptr h (mtracks ! (Suc i + k)) = Some r" by simp
    then have rk': "Run_ptr h' (mtracks ! (Suc i + k)) = Some r"
      by (simp only: h'_def Run_ptr_store)
    from d0 [OF k] rk have ne: "r \<noteq> r0" by auto
    from Cons.IH [OF a d' k rk'] ne
    show ?thesis
      by (simp add: Suc h'_def store_DataOffset_fields payload_pos_Suc payload_len_payload)
  qed
qed

lemma Run_ptr_cong: "Run_of h' = Run_of h \<Longrightarrow> Run_ptr h' p = Run_ptr h p"
  by (cases p) (simp_all add: Run_ptr_def)


lemma assign_offsets_reach_after:
  assumes "assign_offsets off 0 tracks mtracks h = Some (h1, e)"
  shows "\<forall>j<length tracks. 0 + j < length mtracks \<and> Run_ptr h1 (mtracks ! (0 + j)) \<noteq> None"
proof -
  from assign_offsets_reach [OF assms]
  have f: "Run_of h1 = Run_of h"
    and r: "\<forall>j<length tracks. 0 + j < length mtracks \<and> Run_ptr h (mtracks ! (0 + j)) \<noteq> None"
    by blast+
  show ?thesis using r by (simp only: Run_ptr_cong [OF f])
qed


lemma split_four:
  assumes "off + 4 \<le> length (b :: 'a list)"
  obtains xs a1 a2 a3 a4 ys where "b = xs @ a1 # a2 # a3 # a4 # ys" and "length xs = off"
proof -
  from assms have l: "4 \<le> length (drop off b)" by simp
  then obtain a1 r1 where r1: "drop off b = a1 # r1" by (cases "drop off b") auto
  with l obtain a2 r2 where r2: "r1 = a2 # r2" by (cases r1) auto
  with l r1 obtain a3 r3 where r3: "r2 = a3 # r3" by (cases r2) auto
  with l r1 r2 obtain a4 r4 where r4: "r3 = a4 # r4" by (cases r3) auto
  have "b = take off b @ drop off b" by simp
  with r1 r2 r3 r4 have "b = take off b @ a1 # a2 # a3 # a4 # r4" by simp
  moreover from assms have "length (take off b) = off" by simp
  ultimately show thesis by (rule that)
qed

lemma PutU32BE_eq:
  assumes "off + 4 \<le> length b"
  shows "PutU32BE b off v = take off b @ u32be v @ drop (off + 4) b"
proof -
  from assms obtain xs a1 a2 a3 a4 ys
    where b: "b = xs @ a1 # a2 # a3 # a4 # ys" and l: "length xs = off"
    by (rule split_four)
  show ?thesis
    unfolding b PutU32BE_def u32be_def l [symmetric]
    by (simp add: list_update_append)
qed

lemma length_PutU32BE: "length (PutU32BE b off v) = length b"
  by (simp add: PutU32BE_def)

lemma length_u32be: "length (u32be v) = 4"
  by (simp add: u32be_def)

text \<open>The buffer that is written first: the encoded box, then the header of the media data.\<close>

lemma header_buffer:
  assumes "length enc + 8 = dataBase"
  shows "PutU32BE (PutU32BE (enc @ replicate (dataBase - length enc) 0) (dataBase - 8) v)
           (dataBase - 4) t = enc @ u32be v @ u32be t"
proof -
  from assms have d: "dataBase - length enc = 8" "dataBase - 8 = length enc"
    "dataBase - 4 = length enc + 4" by simp_all
  have r: "replicate 8 (0::byte) = [0, 0, 0, 0] @ [0, 0, 0, 0]"
    by (simp add: numeral_eq_Suc)
  have 1: "PutU32BE (enc @ replicate 8 0) (length enc) v = enc @ u32be v @ [0, 0, 0, 0]"
    by (subst PutU32BE_eq) (simp_all add: r)
  have 2: "PutU32BE (enc @ u32be v @ [0, 0, 0, 0]) (length enc + 4) t = enc @ u32be v @ u32be t"
    by (subst PutU32BE_eq) (simp_all add: length_u32be)
  show ?thesis unfolding d 1 2 ..
qed


lemma unat_word_of_nat_32: "n < 2 ^ 32 \<Longrightarrow> unat (word_of_nat n :: uint32) = n"
  by (simp add: unat_of_nat)

lemma payload_at:
  assumes "i < length tracks" and "length pre = dataBase"
  shows "take (length (payload (tracks ! i)))
           (drop (payload_pos dataBase tracks i) (pre @ concat (map payload tracks))) =
         payload (tracks ! i)"
proof -
  have "concat (map payload tracks) =
      concat (map payload (take i tracks)) @ payload (tracks ! i) @
      concat (map payload (drop (Suc i) tracks))"
    using id_take_nth_drop [OF assms(1)] by (metis concat.simps(2) concat_append list.simps(9) map_append)
  then show ?thesis
    using assms(2) by (simp add: payload_pos_def)
qed

lemma payload_pos_le:
  "payload_pos dataBase tracks i \<le> dataBase + length (concat (map payload tracks))"
proof -
  have "length (concat (map payload (take i tracks))) \<le> length (concat (map payload tracks))"
  proof -
    have "concat (map payload tracks) =
        concat (map payload (take i tracks)) @ concat (map payload (drop i tracks))"
      by (metis append_take_drop_id concat_append map_append)
    then show ?thesis by (metis le_add1 length_append)
  qed
  then show ?thesis by (simp add: payload_pos_def)
qed


lemma read_u32be_u32be: "read_u32be (u32be v) = v"
  unfolding read_u32be_def u32be_def
  apply (simp add: bit_eq_iff bit_simps)
  apply (intro allI)
  subgoal for n
    apply (cases "n < 8"; cases "n < 16"; cases "n < 24"; cases "n < 32")
    apply (auto simp: bit_simps dest: bit_imp_le_length)
    done
  done


lemma DataOffset_set: "DataOffset (Run (set_DataOffset v t)) = v"
  by (simp add: set_DataOffset_def)


lemma write_tracks_plain_buffer:
  "on_sink (write_tracks_plain buffer_Write tracks h w) =
     Returns (w @ concat (map payload tracks), None)"
  by (induction tracks arbitrary: w) (simp_all add: write_packets_buffer payload_def)

lemma load_None: "(load h p = None) = (Run_ptr h p = None)"
  by (simp add: load_def Run_ptr_def split: option.splits)

lemma load_Some:
  "load h p = Some t \<Longrightarrow>
     \<exists>a r. p = Some a \<and> Run_of h a = Some r \<and> Run_ptr h p = Some r \<and>
       t = \<lparr> TrackFrag.Header = Header_of h a, DecodeTime = DecodeTime_of h a, Run = run_at h r \<rparr>"
  by (auto simp: load_def Run_ptr_def split: option.splits)

lemma the_tracks_present:
  "\<not> list_ex (nil_track h) tracks \<Longrightarrow>
     map Some (the_tracks h tracks) = map (\<lambda>track. load h (trackFrag track)) tracks"
  by (induction tracks) (auto simp: the_tracks_def nil_track_def)

lemma the_tracks_length:
  "\<not> list_ex (nil_track h) tracks \<Longrightarrow> length (the_tracks h tracks) = length tracks"
  using the_tracks_present [of h tracks] by (metis length_map)

lemma the_tracks_nth:
  assumes "\<not> list_ex (nil_track h) tracks" and "i < length tracks"
  shows "load h (trackFrag (tracks ! i)) = Some (the_tracks h tracks ! i)"
proof -
  from assms have "map Some (the_tracks h tracks) ! i =
      map (\<lambda>track. load h (trackFrag track)) tracks ! i"
    by (simp add: the_tracks_present)
  with assms show ?thesis by (simp add: the_tracks_length)
qed

lemma nonil_reach:
  assumes "\<not> list_ex (nil_track h) tracks"
  shows "\<forall>j<length tracks. 0 + j < length (map trackFrag tracks) \<and>
           Run_ptr h (map trackFrag tracks ! (0 + j)) \<noteq> None"
proof (intro allI impI)
  fix j assume j: "j < length tracks"
  from the_tracks_nth [OF assms j] have "load h (trackFrag (tracks ! j)) \<noteq> None" by simp
  with j show "0 + j < length (map trackFrag tracks) \<and>
      Run_ptr h (map trackFrag tracks ! (0 + j)) \<noteq> None"
    by (simp add: load_None)
qed

lemma nil_track_cong:
  assumes "Run_of h' = Run_of h"
  shows "nil_track h' track = nil_track h track"
  by (simp add: nil_track_def load_None Run_ptr_cong [OF assms])

lemma nonil_cong:
  assumes "Run_of h' = Run_of h"
  shows "list_ex (nil_track h') tracks = list_ex (nil_track h) tracks"
  by (induction tracks) (simp_all add: nil_track_cong [OF assms])

text \<open>The store after the loop that assigns the data offsets.\<close>

lemma assigned_eq:
  assumes "\<not> list_ex (nil_track h) tracks"
  shows "assign_offsets (Len (new_moof h seqNum tracks) + 8) 0 tracks (map trackFrag tracks) h =
     Some (assigned Len h seqNum tracks,
           Len (new_moof h seqNum tracks) + 8 + length (concat (map payload tracks)))"
proof -
  from assign_offsets_Some [OF nonil_reach [OF assms], of "Len (new_moof h seqNum tracks) + 8"]
  obtain h1 where "assign_offsets (Len (new_moof h seqNum tracks) + 8) 0 tracks
      (map trackFrag tracks) h =
      Some (h1, Len (new_moof h seqNum tracks) + 8 + length (concat (map payload tracks)))" ..
  then show ?thesis by (simp add: assigned_def)
qed

lemma assigned_frame:
  assumes "\<not> list_ex (nil_track h) tracks"
  shows "Header_of (assigned Len h seqNum tracks) = Header_of h"
    and "DecodeTime_of (assigned Len h seqNum tracks) = DecodeTime_of h"
    and "Run_of (assigned Len h seqNum tracks) = Run_of h"
    and "\<not> list_ex (nil_track (assigned Len h seqNum tracks)) tracks"
proof -
  from assign_offsets_reach [OF assigned_eq [OF assms]]
  show f: "Header_of (assigned Len h seqNum tracks) = Header_of h"
    "DecodeTime_of (assigned Len h seqNum tracks) = DecodeTime_of h"
    "Run_of (assigned Len h seqNum tracks) = Run_of h"
    by blast+
  from assms show "\<not> list_ex (nil_track (assigned Len h seqNum tracks)) tracks"
    by (simp add: nonil_cong [OF f(3)])
qed

lemma assign_offsets_any:
  "assign_offsets off i tracks mtracks h = Some (h1, e) \<Longrightarrow>
     \<exists>v. run_at h1 r = (run_at h r)\<lparr> DataOffset := v \<rparr>"
proof (induction tracks arbitrary: off i h)
  case Nil
  then have "run_at h1 r = (run_at h r)\<lparr> DataOffset := DataOffset (run_at h r) \<rparr>" by simp
  then show ?case ..
next
  case (Cons track rest)
  from Cons.prems have i: "i < length mtracks" by (simp split: if_splits)
  with Cons.prems obtain r0 where r0: "Run_ptr h (mtracks ! i) = Some r0"
    by (auto split: option.splits)
  from Cons.prems i r0
  have "assign_offsets (payload_len (packets track) off) (Suc i) rest mtracks
      (store_DataOffset (word_of_nat off) r0 h) = Some (h1, e)" by simp
  from Cons.IH [OF this] obtain v
    where "run_at h1 r = (run_at (store_DataOffset (word_of_nat off) r0 h) r)\<lparr> DataOffset := v \<rparr>" ..
  then have "run_at h1 r = (run_at h r)\<lparr> DataOffset := v \<rparr>"
    by (simp add: store_DataOffset_fields split: if_splits)
  then show ?case ..
qed

lemma runs_of_upt:
  "runs_of h tracks =
     map (\<lambda>j. Run_ptr h (map trackFrag tracks ! (0 + j))) [0..<length tracks]"
  unfolding runs_of_def by (rule nth_equalityI) simp_all

lemma marshalled_tracks_length:
  "\<not> list_ex (nil_track h) tracks \<Longrightarrow>
     length (Tracks (marshalled_moof Len h seqNum tracks)) = length tracks"
  by (simp add: marshalled_moof_def new_moof_def the_tracks_length assigned_frame(4))

lemma marshalled_tracks_any:
  assumes nonil: "\<not> list_ex (nil_track h) tracks" and i: "i < length tracks"
  shows "\<exists>v. Tracks (marshalled_moof Len h seqNum tracks) ! i =
           set_DataOffset v (the_tracks h tracks ! i)"
proof -
  define h1 where "h1 = assigned Len h seqNum tracks"
  note f = assigned_frame [OF nonil, of Len seqNum, folded h1_def]
  from load_Some [OF the_tracks_nth [OF nonil i]] obtain a r
    where p: "trackFrag (tracks ! i) = Some a" and r: "Run_of h a = Some r"
      and t: "the_tracks h tracks ! i =
        \<lparr> TrackFrag.Header = Header_of h a, DecodeTime = DecodeTime_of h a, Run = run_at h r \<rparr>"
    by blast
  from assign_offsets_any [OF assigned_eq [OF nonil], of Len seqNum r] obtain v
    where v: "run_at h1 r = (run_at h r)\<lparr> DataOffset := v \<rparr>"
    unfolding h1_def ..
  have "load h1 (trackFrag (tracks ! i)) = Some (set_DataOffset v (the_tracks h tracks ! i))"
    by (simp add: load_def p f(1,2,3) r v t set_DataOffset_def)
  with the_tracks_nth [OF f(4) i]
  have "the_tracks h1 tracks ! i = set_DataOffset v (the_tracks h tracks ! i)" by simp
  then show ?thesis
    by (intro exI [of _ v]) (simp add: marshalled_moof_def new_moof_def h1_def)
qed

lemma marshalled_tracks_nth:
  assumes nonil: "\<not> list_ex (nil_track h) tracks" and dist: "distinct (runs_of h tracks)"
    and i: "i < length tracks"
  shows "Tracks (marshalled_moof Len h seqNum tracks) ! i =
     set_DataOffset (word_of_nat (payload_pos (Len (new_moof h seqNum tracks) + 8) tracks i))
       (the_tracks h tracks ! i)"
proof -
  define h1 where "h1 = assigned Len h seqNum tracks"
  define v :: uint32
    where "v = word_of_nat (payload_pos (Len (new_moof h seqNum tracks) + 8) tracks i)"
  note f = assigned_frame [OF nonil, of Len seqNum, folded h1_def]
  from load_Some [OF the_tracks_nth [OF nonil i]] obtain a r
    where p: "trackFrag (tracks ! i) = Some a" and r: "Run_of h a = Some r"
      and rp: "Run_ptr h (trackFrag (tracks ! i)) = Some r"
      and t: "the_tracks h tracks ! i =
        \<lparr> TrackFrag.Header = Header_of h a, DecodeTime = DecodeTime_of h a, Run = run_at h r \<rparr>"
    by blast
  from rp i have rp': "Run_ptr h (map trackFrag tracks ! (0 + i)) = Some r" by simp
  have "run_at h1 r = (run_at h r)\<lparr> DataOffset := v \<rparr>"
    unfolding h1_def v_def
    by (rule assign_offsets_runs [OF assigned_eq [OF nonil] dist [unfolded runs_of_upt] i rp'])
  then have "load h1 (trackFrag (tracks ! i)) = Some (set_DataOffset v (the_tracks h tracks ! i))"
    by (simp add: load_def p f(1,2,3) r t set_DataOffset_def)
  with the_tracks_nth [OF f(4) i]
  have "the_tracks h1 tracks ! i = set_DataOffset v (the_tracks h tracks ! i)" by simp
  then show ?thesis
    by (simp add: marshalled_moof_def new_moof_def h1_def v_def)
qed

text \<open>The length of the encoding does not change with the data offsets.\<close>

lemma Len_pointwise:
  assumes ind: "\<And>m j v. Len (m\<lparr> Tracks := (Tracks m)[j := set_DataOffset v (Tracks m ! j)] \<rparr>) = Len m"
    and l: "length ts' = length ts"
    and p: "\<And>j. j < length ts \<Longrightarrow> \<exists>v. ts' ! j = set_DataOffset v (ts ! j)"
  shows "Len (m\<lparr> Tracks := ts' \<rparr>) = Len (m\<lparr> Tracks := ts \<rparr>)"
proof -
  have "k \<le> length ts \<Longrightarrow> Len (m\<lparr> Tracks := take k ts' @ drop k ts \<rparr>) = Len (m\<lparr> Tracks := ts \<rparr>)"
    for k
  proof (induction k)
    case 0
    show ?case by simp
  next
    case (Suc k)
    then have k: "k < length ts" by simp
    from p [OF k] obtain v where v: "ts' ! k = set_DataOffset v (ts ! k)" ..
    define us where "us = take k ts' @ drop k ts"
    have uk: "us ! k = ts ! k" using k l by (simp add: us_def nth_append)
    have "take (Suc k) ts' @ drop (Suc k) ts = us[k := set_DataOffset v (us ! k)]"
      unfolding uk unfolding us_def using k l v
      by (simp add: take_Suc_conv_app_nth list_update_append Cons_nth_drop_Suc [symmetric])
    then have "Len (m\<lparr> Tracks := take (Suc k) ts' @ drop (Suc k) ts \<rparr>) =
        Len (m\<lparr> Tracks := us \<rparr>)"
      using ind [of "m\<lparr> Tracks := us \<rparr>" k v] by simp
    with Suc.IH k show ?case by (simp add: us_def)
  qed
  from this [of "length ts"] l show ?thesis by simp
qed

lemma marshalled_moof_Len:
  assumes nonil: "\<not> list_ex (nil_track h) tracks"
    and enc: "\<And>m. length (Marshal m) = Len m"
    and ind: "\<And>m j v. Len (m\<lparr> Tracks := (Tracks m)[j := set_DataOffset v (Tracks m ! j)] \<rparr>) = Len m"
  shows "length (Marshal (marshalled_moof Len h seqNum tracks)) = Len (new_moof h seqNum tracks)"
proof -
  define ts where "ts = the_tracks h tracks"
  define ts' where "ts' = Tracks (marshalled_moof Len h seqNum tracks)"
  have l: "length ts' = length ts"
    by (simp add: ts_def ts'_def marshalled_tracks_length [OF nonil] the_tracks_length [OF nonil])
  have p: "\<exists>v. ts' ! j = set_DataOffset v (ts ! j)" if "j < length ts" for j
    unfolding ts_def ts'_def
    using that by (intro marshalled_tracks_any [OF nonil]) (simp add: ts_def the_tracks_length [OF nonil])
  have "Len ((new_moof h seqNum tracks)\<lparr> Tracks := ts' \<rparr>) =
      Len ((new_moof h seqNum tracks)\<lparr> Tracks := ts \<rparr>)"
    by (rule Len_pointwise [where Len = Len, OF ind l p])
  moreover have "(new_moof h seqNum tracks)\<lparr> Tracks := ts' \<rparr> = marshalled_moof Len h seqNum tracks"
    by (simp add: ts'_def marshalled_moof_def new_moof_def)
  moreover have "(new_moof h seqNum tracks)\<lparr> Tracks := ts \<rparr> = new_moof h seqNum tracks"
    by (simp add: ts_def new_moof_def)
  ultimately show ?thesis by (simp add: enc)
qed

text \<open>What \<open>writeFragment\<close> writes to a buffer.\<close>

lemma writeFragment_buffer:
  assumes nonil: "\<not> list_ex (nil_track h) tracks"
    and enc: "\<And>m. length (Marshal m) = Len m"
    and ind: "\<And>m j v. Len (m\<lparr> Tracks := (Tracks m)[j := set_DataOffset v (Tracks m ! j)] \<rparr>) = Len m"
  shows "on_sink (writeFragment Len Marshal K buffer_Write w h tracks seqNum) =
      Returns (w @ Marshal (marshalled_moof Len h seqNum tracks) @
                 u32be (word_of_nat (length (concat (map payload tracks)) + 8)) @
                 u32be (MDAT K) @ concat (map payload tracks), None)"
proof -
  define moof where "moof = new_moof h seqNum tracks"
  define h1 where "h1 = assigned Len h seqNum tracks"
  define box where "box = Marshal (new_moof h1 seqNum tracks)"
  have mm: "marshalled_moof Len h seqNum tracks = new_moof h1 seqNum tracks"
    by (simp add: marshalled_moof_def h1_def)
  have a: "assign_offsets (Len moof + 8) 0 tracks (map trackFrag tracks) h =
      Some (h1, Len moof + 8 + length (concat (map payload tracks)))"
    unfolding moof_def h1_def by (rule assigned_eq [OF nonil])
  have e: "length box = Len moof"
    using marshalled_moof_Len [where Marshal = Marshal and Len = Len, OF nonil enc ind, of seqNum]
    by (simp add: mm moof_def box_def)
  have hb: "PutU32BE (PutU32BE (box @ replicate 8 0) (Len moof) v) (4 + Len moof) t =
           box @ u32be v @ u32be t" for v t
    using header_buffer [of box "Len moof + 8" v t] e
    by (simp add: add.commute)
  have wt: "on_sink (write_tracks buffer_Write off 0 tracks (map trackFrag tracks) h1 w') =
      Returns (w' @ concat (map payload tracks), None)" for off w'
    using write_tracks_plain_same [OF assign_offsets_reach_after [OF a],
        where Write = buffer_Write and off = off and ?h0.0 = h1 and w = w']
    by (simp only: write_tracks_plain_buffer)
  have "writeFragment Len Marshal K buffer_Write w h tracks seqNum =
      write_tracks buffer_Write (Len moof + 8 + length (concat (map payload tracks))) 0
        tracks (map trackFrag tracks) h1
        (w @ box @ u32be (word_of_nat (length (concat (map payload tracks)) + 8)) @ u32be (MDAT K))"
    unfolding writeFragment_def Let_def moof_def [symmetric]
    using nonil
    by (simp only: if_False a prod.case option.case box_def [symmetric] e simp_thms)
       (simp add: buffer_Write_def hb)
  then show ?thesis by (simp only: wt mm box_def append_assoc)
qed

text \<open>
  C2, as the code has it. When every track of the list leads to a run, with no \<open>nil\<close>
  on the way, and the encoder writes exactly \<open>Len\<close> bytes, a length that the data
  offsets do not change: \<open>writeFragment\<close> writes to a buffer the encoded movie fragment,
  the four bytes of the size \<open>total payload + 8\<close> in 32 bits, the four bytes of the tag,
  and the payload of each track in order, \<open>dataBase + total payload\<close> bytes in all, where
  \<open>dataBase\<close> is \<open>Len\<close> of the movie fragment plus 8. When the output is shorter than
  \<open>2 ^ 32\<close> bytes the size read back is \<open>total payload + 8\<close>. When the runs that the
  tracks lead to are different boxes, the track fragment \<open>i\<close> that is encoded is the one
  of track \<open>i\<close> with, as its data offset, the position in the output where the payload
  of that track starts, in 32 bits; that is the position itself when the output is
  shorter than \<open>2 ^ 32\<close> bytes.
\<close>

theorem writeFragment_layout:
  assumes nonil: "\<not> list_ex (nil_track h) tracks"
    and enc: "\<And>m. length (Marshal m) = Len m"
    and ind: "\<And>m j v. Len (m\<lparr> Tracks := (Tracks m)[j := set_DataOffset v (Tracks m ! j)] \<rparr>) = Len m"
  shows "\<exists>out. on_sink (writeFragment Len Marshal K buffer_Write [] h tracks seqNum) = Returns (out, None) \<and>
      out = Marshal (marshalled_moof Len h seqNum tracks) @
            u32be (word_of_nat (length (concat (map payload tracks)) + 8)) @
            u32be (MDAT K) @ concat (map payload tracks) \<and>
      length (Marshal (marshalled_moof Len h seqNum tracks)) = Len (new_moof h seqNum tracks) \<and>
      length out = Len (new_moof h seqNum tracks) + 8 + length (concat (map payload tracks)) \<and>
      length (Tracks (marshalled_moof Len h seqNum tracks)) = length tracks \<and>
      (\<forall>i<length tracks.
         take (length (payload (tracks ! i)))
           (drop (payload_pos (Len (new_moof h seqNum tracks) + 8) tracks i) out) =
         payload (tracks ! i)) \<and>
      (Len (new_moof h seqNum tracks) + 8 + length (concat (map payload tracks)) < 2 ^ 32 \<longrightarrow>
         unat (read_u32be (take 4 (drop (Len (new_moof h seqNum tracks)) out))) =
           length (concat (map payload tracks)) + 8) \<and>
      (distinct (runs_of h tracks) \<longrightarrow>
         (\<forall>i<length tracks.
            (\<exists>t. load h (trackFrag (tracks ! i)) = Some t \<and>
               Tracks (marshalled_moof Len h seqNum tracks) ! i =
                 set_DataOffset
                   (word_of_nat (payload_pos (Len (new_moof h seqNum tracks) + 8) tracks i)) t) \<and>
            DataOffset (Run (Tracks (marshalled_moof Len h seqNum tracks) ! i)) =
              word_of_nat (payload_pos (Len (new_moof h seqNum tracks) + 8) tracks i) \<and>
            (Len (new_moof h seqNum tracks) + 8 + length (concat (map payload tracks)) < 2 ^ 32 \<longrightarrow>
               unat (DataOffset (Run (Tracks (marshalled_moof Len h seqNum tracks) ! i))) =
                 payload_pos (Len (new_moof h seqNum tracks) + 8) tracks i)))"
proof -
  define box where "box = Marshal (marshalled_moof Len h seqNum tracks)"
  define total where "total = length (concat (map payload tracks))"
  define dataBase where "dataBase = Len (new_moof h seqNum tracks) + 8"
  define out where "out = box @ u32be (word_of_nat (total + 8)) @ u32be (MDAT K) @
    concat (map payload tracks)"
  note defs = box_def total_def dataBase_def out_def
  have w: "on_sink (writeFragment Len Marshal K buffer_Write [] h tracks seqNum) = Returns (out, None)"
    using writeFragment_buffer [where Marshal = Marshal and Len = Len, OF nonil enc ind,
        of K "[]" seqNum]
    by (simp add: defs)
  have lb: "length box = Len (new_moof h seqNum tracks)"
    unfolding box_def
    by (rule marshalled_moof_Len [where Marshal = Marshal and Len = Len, OF nonil enc ind])
  have lo: "length out = dataBase + total"
    by (simp add: out_def lb length_u32be dataBase_def total_def)
  have pre: "out = (box @ u32be (word_of_nat (total + 8)) @ u32be (MDAT K)) @
      concat (map payload tracks)" "length (box @ u32be (word_of_nat (total + 8)) @ u32be (MDAT K)) = dataBase"
    by (simp_all add: out_def lb length_u32be dataBase_def)
  have pl: "take (length (payload (tracks ! i))) (drop (payload_pos dataBase tracks i) out) =
         payload (tracks ! i)" if "i < length tracks" for i
    unfolding pre(1) by (rule payload_at [OF that pre(2)])
  have sz: "unat (read_u32be (take 4 (drop (Len (new_moof h seqNum tracks)) out))) = total + 8"
    if "dataBase + total < 2 ^ 32"
  proof -
    have "take 4 (drop (Len (new_moof h seqNum tracks)) out) = u32be (word_of_nat (total + 8))"
      by (simp add: out_def lb length_u32be)
    moreover from that have "total + 8 < 2 ^ 32" by (simp add: dataBase_def)
    ultimately show ?thesis
      by (simp only: read_u32be_u32be unat_word_of_nat_32)
  qed
  have tr: "(\<exists>t. load h (trackFrag (tracks ! i)) = Some t \<and>
            Tracks (marshalled_moof Len h seqNum tracks) ! i =
              set_DataOffset (word_of_nat (payload_pos dataBase tracks i)) t) \<and>
         DataOffset (Run (Tracks (marshalled_moof Len h seqNum tracks) ! i)) =
           word_of_nat (payload_pos dataBase tracks i) \<and>
         (dataBase + total < 2 ^ 32 \<longrightarrow>
            unat (DataOffset (Run (Tracks (marshalled_moof Len h seqNum tracks) ! i))) =
              payload_pos dataBase tracks i)"
    if dist: "distinct (runs_of h tracks)" and i: "i < length tracks" for i
  proof (intro conjI impI)
    note n = marshalled_tracks_nth [OF nonil dist i, of Len seqNum, folded dataBase_def]
    show "\<exists>t. load h (trackFrag (tracks ! i)) = Some t \<and>
            Tracks (marshalled_moof Len h seqNum tracks) ! i =
              set_DataOffset (word_of_nat (payload_pos dataBase tracks i)) t"
      using the_tracks_nth [OF nonil i] n by simp
    show "DataOffset (Run (Tracks (marshalled_moof Len h seqNum tracks) ! i)) =
           word_of_nat (payload_pos dataBase tracks i)"
      by (simp only: n DataOffset_set)
    assume small: "dataBase + total < 2 ^ 32"
    have "payload_pos dataBase tracks i \<le> dataBase + total"
      unfolding total_def by (rule payload_pos_le)
    with small have "payload_pos dataBase tracks i < 2 ^ 32" by simp
    then show "unat (DataOffset (Run (Tracks (marshalled_moof Len h seqNum tracks) ! i))) =
        payload_pos dataBase tracks i"
      by (simp only: n DataOffset_set unat_word_of_nat_32)
  qed
  have o: "out = box @ u32be (word_of_nat (total + 8)) @ u32be (MDAT K) @
      concat (map payload tracks)"
    by (simp add: out_def)
  from w o lb lo marshalled_tracks_length [OF nonil, of Len seqNum] pl sz tr
  show ?thesis
    unfolding box_def total_def dataBase_def by (intro exI [of _ out]) blast
qed

lemma try_tracks_length: "length (concat (map try_Marshal_track ts)) = 12 * length ts"
  by (induction ts) (simp_all add: try_Marshal_track_def length_u32be)

lemma try_enc: "length (try_Marshal m) = try_Len m"
  by (simp add: try_Marshal_def try_Len_def try_tracks_length length_u32be)

lemma try_ind: "try_Len (m\<lparr> Tracks := (Tracks m)[j := set_DataOffset v (Tracks m ! j)] \<rparr>) = try_Len m"
  by (simp add: try_Len_def)

lemma example_tracks_present:
  "\<not> list_ex (nil_track example_store) example_tracks"
  "\<not> list_ex (nil_track example_store) shared_tracks"
  "\<not> list_ex (nil_track example_store) big_tracks"
  by (simp_all add: example_tracks_def shared_tracks_def big_tracks_def nil_track_def load_def
        example_store_def)

lemma example_runs:
  "runs_of example_store example_tracks = [Some 10, Some 11]"
  "runs_of example_store shared_tracks = [Some 10, Some 10]"
  by (simp_all add: runs_of_def Run_ptr_def example_store_def example_tracks_def shared_tracks_def)

lemma example_marshalled:
  "try_Marshal (marshalled_moof try_Len example_store 7 example_tracks) =
     [0, 0, 0, 7, 0, 0, 0, 2, 0, 0, 0, 1, 0, 0, 0, 40, 0, 0, 0, 3, 0, 0, 0, 1, 0, 0, 0, 49,
      0, 0, 0, 2]"
  by (simp add: marshalled_moof_def assigned_def new_moof_def example_tracks_def the_tracks_def
        load_def Run_ptr_def store_DataOffset_def example_store_def try_Len_def
        try_Marshal_def try_Marshal_track_def u32be_def payload_len_def example_packet_def
        example_track_def empty_track_def)

lemma shared_marshalled:
  "try_Marshal (marshalled_moof try_Len example_store 7 shared_tracks) =
     [0, 0, 0, 7, 0, 0, 0, 2, 0, 0, 0, 1, 0, 0, 0, 43, 0, 0, 0, 3, 0, 0, 0, 1, 0, 0, 0, 43,
      0, 0, 0, 3]"
  by (simp add: marshalled_moof_def assigned_def new_moof_def shared_tracks_def the_tracks_def
        load_def Run_ptr_def store_DataOffset_def example_store_def try_Len_def
        try_Marshal_def try_Marshal_track_def u32be_def payload_len_def example_packet_def
        example_track_def empty_track_def)

lemma big_marshalled:
  "try_Marshal (marshalled_moof try_Len example_store 7 big_tracks) =
     [0, 0, 0, 7, 0, 0, 0, 1, 0, 0, 0, 1, 0, 0, 0, 28, 0, 0, 0, 2]"
  by (simp add: marshalled_moof_def assigned_def new_moof_def big_tracks_def the_tracks_def
        load_def Run_ptr_def store_DataOffset_def example_store_def try_Len_def
        try_Marshal_def try_Marshal_track_def u32be_def payload_len_def example_packet_def
        example_track_def empty_track_def)

theorem writeFragment_layout_witness:
  "\<not> list_ex (nil_track example_store) example_tracks \<and>
   distinct (runs_of example_store example_tracks) \<and>
   try_Len (new_moof example_store 7 example_tracks) + 8 +
     length (concat (map payload example_tracks)) < 2 ^ 32 \<and>
   try_Len (new_moof example_store 7 example_tracks) + 8 = 40 \<and>
   on_sink (writeFragment try_Len try_Marshal iso_flags buffer_Write [] example_store
              example_tracks 7) =
     Returns
       ([0, 0, 0, 7, 0, 0, 0, 2, 0, 0, 0, 1, 0, 0, 0, 40, 0, 0, 0, 3, 0, 0, 0, 1, 0, 0, 0, 49,
         0, 0, 0, 2, 0, 0, 0, 19, 109, 100, 97, 116, 1, 2, 3, 4, 5, 6, 7, 8, 9, 10, 11], None) \<and>
   map payload example_tracks = [[1, 2, 3, 4, 5, 6, 7, 8, 9], [10, 11]] \<and>
   payload_pos 40 example_tracks 0 = 40 \<and>
   payload_pos 40 example_tracks 1 = 49"
  using writeFragment_layout [where Marshal = try_Marshal and Len = try_Len, OF _ try_enc try_ind,
      of example_store example_tracks iso_flags 7]
  by (simp add: example_tracks_present example_marshalled example_runs)
     (simp add: example_tracks_def payload_def payload_pos_def example_packet_def u32be_def
        iso_flags_def new_moof_def try_Len_def the_tracks_def load_def example_store_def)

text \<open>
  C2 as stated fails. With two tracks of three and two bytes that hold the same track
  fragment, the data offset that is encoded is 43 for both, and the payload of the first
  starts at 40. And with one packet of \<open>2 ^ 32 - 8\<close> bytes the size field is 0, not the
  \<open>2 ^ 32\<close> that the payload and the header add up to.
\<close>

theorem writeFragment_layout_counterexample:
  "\<not> list_ex (nil_track example_store) shared_tracks \<and>
   on_sink (writeFragment try_Len try_Marshal iso_flags buffer_Write [] example_store
              shared_tracks 7) =
     Returns
       ([0, 0, 0, 7, 0, 0, 0, 2, 0, 0, 0, 1, 0, 0, 0, 43, 0, 0, 0, 3, 0, 0, 0, 1, 0, 0, 0, 43,
         0, 0, 0, 3, 0, 0, 0, 13, 109, 100, 97, 116, 1, 2, 3, 10, 11], None) \<and>
   payload_pos 40 shared_tracks 0 = 40 \<and>
   payload_pos 40 shared_tracks 1 = 43 \<and>
   \<not> list_ex (nil_track example_store) big_tracks \<and>
   on_sink (writeFragment try_Len try_Marshal iso_flags buffer_Write [] example_store
              big_tracks 7) =
     Returns
       ([0, 0, 0, 7, 0, 0, 0, 1, 0, 0, 0, 1, 0, 0, 0, 28, 0, 0, 0, 2] @
        [0, 0, 0, 0] @ [109, 100, 97, 116] @ replicate 4294967288 0, None) \<and>
   length (concat (map payload big_tracks)) + 8 = 4294967296 \<and>
   read_u32be [0, 0, 0, 0] = 0"
  using writeFragment_buffer [where Marshal = try_Marshal and Len = try_Len,
      OF example_tracks_present(2) try_enc try_ind, of iso_flags "[]" 7]
    writeFragment_buffer [where Marshal = try_Marshal and Len = try_Len,
      OF example_tracks_present(3) try_enc try_ind, of iso_flags "[]" 7]
  by (simp add: big_marshalled shared_marshalled example_tracks_present)
     (simp add: big_tracks_def shared_tracks_def payload_def payload_pos_def example_packet_def
        u32be_def iso_flags_def read_u32be_def)

text \<open>
  The assignment of C9 is not without effect on the boxes: the data offsets that the
  two functions leave in the runs differ.
\<close>

lemma reassignment_changes_boxes:
  "(case writeFragment try_Len try_Marshal iso_flags buffer_Write [] example_store example_tracks 7 of
      Returns (w, h, e) \<Rightarrow> map (\<lambda>r. DataOffset (run_at h r)) [10, 11] | Panics \<Rightarrow> []) = [51, 51] \<and>
   (case writeFragment_plain try_Len try_Marshal iso_flags buffer_Write [] example_store example_tracks 7 of
      Returns (w, h, e) \<Rightarrow> map (\<lambda>r. DataOffset (run_at h r)) [10, 11] | Panics \<Rightarrow> []) = [40, 49]"
  by (simp add: writeFragment_def writeFragment_plain_def example_tracks_def nil_track_def
        load_def Run_ptr_def store_DataOffset_def example_store_def new_moof_def
        the_tracks_def try_Len_def Let_def payload_len_def example_packet_def
        try_Marshal_def try_Marshal_track_def u32be_def PutU32BE_def buffer_Write_def
        example_track_def empty_track_def)

end
